theory Spec2Isabelle
  imports Main "HOL-Library.Sublist"
begin

section \<open>The S3 upload cleaner (main.go)\<close>

text \<open>
  A shallow embedding of \<^verbatim>\<open>main.go\<close>: the driver \<^verbatim>\<open>main\<close>, the two reapers
  \<^verbatim>\<open>cleanMPUs\<close> and \<^verbatim>\<open>cleanUploadFolders\<close>, \<^verbatim>\<open>removeUploadFolder\<close>,
  \<^verbatim>\<open>hoursSinceUploadStarted\<close> and \<^verbatim>\<open>parseTimeFromStream\<close>.

  The object store is reached through the AWS SDK client \<^verbatim>\<open>*s3.S3\<close>. The client is not
  part of the program: it is a parameter of the model, a record of functions from the store's
  state to the response of each call. Calls that only read return a response; the two calls
  that write (\<^verbatim>\<open>AbortMultipartUpload\<close>, \<^verbatim>\<open>DeleteObject\<close>) also return the new state. Every
  call the program issues and every line it prints is appended to a trace, in order.

  Go pointers are options (\<open>None\<close> is \<^verbatim>\<open>nil\<close>), and dereferencing \<^verbatim>\<open>nil\<close> is a panic. A
  panic ends the run and keeps the state reached so far. The three \<^verbatim>\<open>for\<close> loops over pages
  stop only when the store says so, so they take fuel, and running out of fuel is the
  outcome \<open>OutOfFuel\<close>.
\<close>

subsection \<open>Values\<close>

text \<open>
  \<^verbatim>\<open>time.Time\<close>, as the arguments of \<^verbatim>\<open>time.Date(year, month, day, hour, min, sec, nsec, time.UTC)\<close>.
\<close>

datatype Time = Date (t_year: int) (t_month: int) (t_day: int) (t_hour: int) (t_min: int) (t_sec: int) (t_nsec: int)

text \<open>
  Go's \<^verbatim>\<open>error\<close> values: what a request of the client returns, what reading a response
  body returns, and \<^verbatim>\<open>*time.ParseError\<close> (with the value that did not parse).
\<close>

datatype error = RequestError string | ReadError string | ParseError string

datatype panic = NilDereference | PanicError error

text \<open>The fields of the global \<^verbatim>\<open>opts\<close> that the code after \<^verbatim>\<open>flags.ParseArgs\<close> reads.\<close>

record Opts =
  Endpoint :: string
  Bucket :: string
  RootDirectory :: string
  CleanupHours :: int
  DryRun :: bool

definition MaxResultCount :: int where
  "MaxResultCount = 1000"

subsection \<open>Requests and responses of the client\<close>

record ListObjectsInput =
  loi_MaxKeys :: "int option"
  loi_Bucket :: "string option"
  loi_Prefix :: "string option"
  loi_Delimiter :: "string option"
  loi_Marker :: "string option"

record CommonPrefix =
  cp_Prefix :: "string option"

record ListObjectsOutput =
  loo_IsTruncated :: "bool option"
  loo_NextMarker :: "string option"
  loo_CommonPrefixes :: "CommonPrefix list"
  loo_Prefix :: "string option"

record ListMultipartUploadsInput =
  lmi_Bucket :: "string option"
  lmi_Prefix :: "string option"
  lmi_KeyMarker :: "string option"
  lmi_MaxUploads :: "int option"

record MultipartUpload =
  mu_Key :: "string option"
  mu_UploadId :: "string option"
  mu_Initiated :: "Time option"

record ListMultipartUploadsOutput =
  lmo_IsTruncated :: "bool option"
  lmo_NextKeyMarker :: "string option"
  lmo_Uploads :: "MultipartUpload list"

record AbortMultipartUploadInput =
  ami_Bucket :: "string option"
  ami_Key :: "string option"
  ami_UploadId :: "string option"

record ListObjectsV2Input =
  lvi_Bucket :: "string option"
  lvi_Prefix :: "string option"
  lvi_MaxKeys :: "int option"
  lvi_ContinuationToken :: "string option"

record Object =
  obj_Key :: "string option"

record ListObjectsV2Output =
  lvo_Contents :: "Object list"
  lvo_NextContinuationToken :: "string option"
  lvo_IsTruncated :: "bool option"

record GetObjectInput =
  goi_Bucket :: "string option"
  goi_Key :: "string option"

text \<open>
  An \<^verbatim>\<open>io.Reader\<close>: the bytes it yields, and the error that ends the reading if it is not
  the end of the stream.
\<close>

datatype Reader = Reader string "error option"

record GetObjectOutput =
  goo_Body :: Reader

record DeleteObjectInput =
  doi_Bucket :: "string option"
  doi_Key :: "string option"

text \<open>
  The client \<^verbatim>\<open>s\<close> and the clock. Each request returns the SDK's pair of an output struct
  (never \<^verbatim>\<open>nil\<close>; its fields are pointers and may be) and an \<^verbatim>\<open>error\<close>.
  \<open>HoursSince st t\<close> is the value of \<^verbatim>\<open>int(time.Since(t).Hours())\<close>: the whole hours,
  truncated toward zero, between \<open>t\<close> and the clock's reading.
\<close>

record 'st S3 =
  ListObjects :: "'st \<Rightarrow> ListObjectsInput \<Rightarrow> ListObjectsOutput \<times> error option"
  ListMultipartUploads :: "'st \<Rightarrow> ListMultipartUploadsInput \<Rightarrow> ListMultipartUploadsOutput \<times> error option"
  AbortMultipartUpload :: "'st \<Rightarrow> AbortMultipartUploadInput \<Rightarrow> error option \<times> 'st"
  ListObjectsV2 :: "'st \<Rightarrow> ListObjectsV2Input \<Rightarrow> ListObjectsV2Output \<times> error option"
  GetObject :: "'st \<Rightarrow> GetObjectInput \<Rightarrow> GetObjectOutput \<times> error option"
  DeleteObject :: "'st \<Rightarrow> DeleteObjectInput \<Rightarrow> error option \<times> 'st"
  HoursSince :: "'st \<Rightarrow> Time \<Rightarrow> int"

subsection \<open>The trace and the outcomes\<close>

text \<open>One constructor for each line the program prints, in the order of the source.\<close>

datatype line =
    DryRunMode
  | OptCleanupHours int
  | OptEndpoint string
  | OptBucket string
  | OptRootDirectory string
  | PrefixIs string
  | ResultTruncated
  | PrefixLine nat string
  | RemovingUploadFolders string
  | TotalMPUsRemoved int
  | OutputTruncated
  | MPUsFound nat
  | UploadLine nat string
  | StartedHoursAgo int
  | AbortCandidate string string string
  | ErrorLine error
  | RemovedLine
  | RemovedCount int
  | ListingError error
  | RemovingFolder string int
  | SkippingFolder string int
  | RemovingObject string

datatype event =
    CallListObjects ListObjectsInput
  | CallListMultipartUploads ListMultipartUploadsInput
  | CallAbortMultipartUpload AbortMultipartUploadInput
  | CallListObjectsV2 ListObjectsV2Input
  | CallGetObject GetObjectInput
  | CallDeleteObject DeleteObjectInput
  | Print line

record 'st world =
  store :: 'st
  trace :: "event list"

datatype ('a, 'st) outcome =
    Return 'a "'st world"
  | Panic panic "'st world"
  | OutOfFuel

definition emit :: "event \<Rightarrow> 'st world \<Rightarrow> 'st world" where
  "emit e w = w\<lparr>trace := trace w @ [e]\<rparr>"

definition println :: "line \<Rightarrow> 'st world \<Rightarrow> 'st world" where
  "println l w = emit (Print l) w"

subsection \<open>cleanMPUs\<close>

text \<open>
  The body of \<^verbatim>\<open>for i, multi := range resp.Uploads\<close> (lines 121 to 144), for one upload:
  the new value of \<^verbatim>\<open>totalRemoved\<close> and the new state.
\<close>

definition cleanMPUs_upload ::
  "'st S3 \<Rightarrow> Opts \<Rightarrow> string \<Rightarrow> nat \<Rightarrow> MultipartUpload \<Rightarrow> int \<Rightarrow> 'st world \<Rightarrow> (int, 'st) outcome" where
  "cleanMPUs_upload s opts bucket i multi totalRemoved w =
     (case mu_Key multi of
        None \<Rightarrow> Panic NilDereference w
      | Some key \<Rightarrow>
          let w1 = println (UploadLine i key) w in
          (case mu_Initiated multi of
             None \<Rightarrow> Panic NilDereference w1
           | Some initiated \<Rightarrow>
               let hoursSince = HoursSince s (store w1) initiated;
                   w2 = println (StartedHoursAgo hoursSince) w1
               in if hoursSince \<ge> CleanupHours opts then
                    (case mu_UploadId multi of
                       None \<Rightarrow> Panic NilDereference w2
                     | Some uploadId \<Rightarrow>
                         let w3 = println (AbortCandidate bucket key uploadId) w2 in
                         if \<not> DryRun opts then
                           let inp = \<lparr>ami_Bucket = Some bucket, ami_Key = mu_Key multi,
                                      ami_UploadId = mu_UploadId multi\<rparr>;
                               (err, st') = AbortMultipartUpload s (store w3) inp;
                               w4 = (emit (CallAbortMultipartUpload inp) w3)\<lparr>store := st'\<rparr>;
                               w5 = (case err of
                                       Some e \<Rightarrow> println (ErrorLine e) w4
                                     | None \<Rightarrow> println RemovedLine w4)
                           in Return (totalRemoved + 1) w5
                         else Return (totalRemoved + 1) w3)
                  else Return totalRemoved w2))"

text \<open>The \<^verbatim>\<open>range\<close> loop over the uploads of one page, from index \<open>i\<close> on.\<close>

fun cleanMPUs_uploads ::
  "'st S3 \<Rightarrow> Opts \<Rightarrow> string \<Rightarrow> nat \<Rightarrow> MultipartUpload list \<Rightarrow> int \<Rightarrow> 'st world \<Rightarrow> (int, 'st) outcome" where
  "cleanMPUs_uploads s opts bucket i [] totalRemoved w = Return totalRemoved w"
| "cleanMPUs_uploads s opts bucket i (multi # rest) totalRemoved w =
     (case cleanMPUs_upload s opts bucket i multi totalRemoved w of
        Return totalRemoved' w' \<Rightarrow> cleanMPUs_uploads s opts bucket (Suc i) rest totalRemoved' w'
      | Panic p w' \<Rightarrow> Panic p w'
      | OutOfFuel \<Rightarrow> OutOfFuel)"

text \<open>
  The loop \<^verbatim>\<open>for isTruncated\<close> of \<^verbatim>\<open>cleanMPUs\<close> (lines 101 to 145), entered with
  \<^verbatim>\<open>isTruncated == true\<close>; its state is \<^verbatim>\<open>keyMarker\<close>, \<^verbatim>\<open>totalRemoved\<close> and the world.
  \<^verbatim>\<open>NextKeyMarker\<close> is dereferenced on line 114 whatever \<^verbatim>\<open>isTruncated\<close> is.
\<close>

fun cleanMPUs_loop ::
  "nat \<Rightarrow> 'st S3 \<Rightarrow> Opts \<Rightarrow> string \<Rightarrow> string \<Rightarrow> string \<Rightarrow> int \<Rightarrow> 'st world \<Rightarrow> (int, 'st) outcome" where
  "cleanMPUs_loop 0 s opts bucket pfx keyMarker totalRemoved w = OutOfFuel"
| "cleanMPUs_loop (Suc fuel) s opts bucket pfx keyMarker totalRemoved w =
     (let inp = \<lparr>lmi_Bucket = Some bucket, lmi_Prefix = Some pfx,
                lmi_KeyMarker = Some keyMarker, lmi_MaxUploads = Some MaxResultCount\<rparr>;
          (resp, err) = ListMultipartUploads s (store w) inp;
          w1 = emit (CallListMultipartUploads inp) w
      in case err of
           Some e \<Rightarrow> Panic (PanicError e) w1
         | None \<Rightarrow>
             (case lmo_IsTruncated resp of
                None \<Rightarrow> Panic NilDereference w1
              | Some isTruncated \<Rightarrow>
                  (case lmo_NextKeyMarker resp of
                     None \<Rightarrow> Panic NilDereference w1
                   | Some keyMarker' \<Rightarrow>
                       let w2 = (if isTruncated then println OutputTruncated w1 else w1);
                           w3 = println (MPUsFound (length (lmo_Uploads resp))) w2
                       in (case cleanMPUs_uploads s opts bucket 0 (lmo_Uploads resp) totalRemoved w3 of
                             Return totalRemoved' w4 \<Rightarrow>
                               if isTruncated
                               then cleanMPUs_loop fuel s opts bucket pfx keyMarker' totalRemoved' w4
                               else Return totalRemoved' w4
                           | Panic p w4 \<Rightarrow> Panic p w4
                           | OutOfFuel \<Rightarrow> OutOfFuel))))"

definition cleanMPUs ::
  "nat \<Rightarrow> 'st S3 \<Rightarrow> Opts \<Rightarrow> string \<Rightarrow> string \<Rightarrow> 'st world \<Rightarrow> (int, 'st) outcome" where
  "cleanMPUs fuel s opts bucket pfx w =
     (case cleanMPUs_loop fuel s opts bucket pfx [] 0 w of
        Return totalRemoved w' \<Rightarrow> Return totalRemoved (println (RemovedCount totalRemoved) w')
      | Panic p w' \<Rightarrow> Panic p w'
      | OutOfFuel \<Rightarrow> OutOfFuel)"

subsection \<open>The functions of package strings that the program calls\<close>

text \<open>\<^verbatim>\<open>strings.Contains(s, substr)\<close>: \<open>substr\<close> occurs in \<open>s\<close>.\<close>

fun strings_Contains :: "string \<Rightarrow> string \<Rightarrow> bool" where
  "strings_Contains [] substr = (substr = [])"
| "strings_Contains (c # s) substr = (prefix substr (c # s) \<or> strings_Contains s substr)"

text \<open>\<^verbatim>\<open>strings.HasSuffix(s, suffix)\<close>, as the library writes it.\<close>

definition strings_HasSuffix :: "string \<Rightarrow> string \<Rightarrow> bool" where
  "strings_HasSuffix s suf = (length suf \<le> length s \<and> drop (length s - length suf) s = suf)"

text \<open>
  \<^verbatim>\<open>strings.Split(s, sep)\<close> for a separator of one byte, the only use in the program
  (\<^verbatim>\<open>"/"\<close>): the parts of \<open>s\<close> between the separators, one more than there are separators.
\<close>

fun strings_Split :: "string \<Rightarrow> char \<Rightarrow> string list" where
  "strings_Split [] sep = [[]]"
| "strings_Split (c # s) sep =
     (if c = sep then [] # strings_Split s sep
      else (case strings_Split s sep of
              [] \<Rightarrow> [[c]]
            | part # parts \<Rightarrow> (c # part) # parts))"

text \<open>\<^verbatim>\<open>strings.Join(elems, sep)\<close>.\<close>

fun strings_Join :: "string list \<Rightarrow> string \<Rightarrow> string" where
  "strings_Join [] sep = []"
| "strings_Join [e] sep = e"
| "strings_Join (e # e' # elems) sep = e @ sep @ strings_Join (e' # elems) sep"

subsection \<open>time.Parse with the layout of the program\<close>

text \<open>
  \<^verbatim>\<open>time.Parse\<close> belongs to Go's standard library, not to the program. It is modelled for
  the one layout the program passes, \<^verbatim>\<open>startedadDateFormat = "2006-01-02T15:04:05Z"\<close>, after
  the library's algorithm: the layout is the sequence of elements \<^verbatim>\<open>2006\<close> (year, four
  digits), \<^verbatim>\<open>01\<close> (month, two digits), \<^verbatim>\<open>02\<close> (day, two digits), \<^verbatim>\<open>15\<close> (hour, one or
  two digits: the library reads it with \<^verbatim>\<open>getnum(value, false)\<close>), \<^verbatim>\<open>04\<close> and \<^verbatim>\<open>05\<close>
  (minute and second, two digits), with the literal texts \<^verbatim>\<open>-\<close>, \<^verbatim>\<open>-\<close>, \<^verbatim>\<open>T\<close>, \<^verbatim>\<open>:\<close>,
  \<^verbatim>\<open>:\<close> between them and \<^verbatim>\<open>Z\<close> at the end (a \<^verbatim>\<open>Z\<close> that no \<^verbatim>\<open>07\<close> follows is
  literal text, not a time zone element). After the seconds the library also accepts a
  fractional second, a period or comma and digits, although the layout has none. The
  result is in UTC.
\<close>

definition startedadDateFormat :: string where
  "startedadDateFormat = ''2006-01-02T15:04:05Z''"

definition is_digit :: "char \<Rightarrow> bool" where
  "is_digit c = (48 \<le> (of_char c :: nat) \<and> (of_char c :: nat) \<le> 57)"

definition digit_val :: "char \<Rightarrow> int" where
  "digit_val c = int (of_char c) - 48"

text \<open>\<^verbatim>\<open>isDigit(s, i)\<close>: the index is in range and the byte there is a decimal digit.\<close>

definition isDigit :: "string \<Rightarrow> nat \<Rightarrow> bool" where
  "isDigit s i = (i < length s \<and> is_digit (s ! i))"

text \<open>
  \<^verbatim>\<open>getnum(s, fixed)\<close>: a number of one or two digits at the head of \<open>s\<close>, of exactly two
  when \<open>fixed\<close>, and the rest of \<open>s\<close>; \<open>None\<close> is \<^verbatim>\<open>errBad\<close>.
\<close>

definition getnum :: "string \<Rightarrow> bool \<Rightarrow> (int \<times> string) option" where
  "getnum s fixed =
     (if \<not> isDigit s 0 then None
      else if \<not> isDigit s 1 then
        (if fixed then None else Some (digit_val (s ! 0), drop 1 s))
      else Some (digit_val (s ! 0) * 10 + digit_val (s ! 1), drop 2 s))"

text \<open>\<^verbatim>\<open>atoi\<close> on a string of digits; \<open>None\<close> when a byte is not a digit.\<close>

fun atoi_digits :: "int \<Rightarrow> string \<Rightarrow> int option" where
  "atoi_digits acc [] = Some acc"
| "atoi_digits acc (c # s) = (if is_digit c then atoi_digits (acc * 10 + digit_val c) s else None)"

text \<open>The element \<^verbatim>\<open>2006\<close>: four bytes, the first a digit, read by \<^verbatim>\<open>atoi\<close>.\<close>

definition parse_stdLongYear :: "string \<Rightarrow> (int \<times> string) option" where
  "parse_stdLongYear v =
     (if length v < 4 \<or> \<not> isDigit v 0 then None
      else (case atoi_digits 0 (take 4 v) of
              None \<Rightarrow> None
            | Some year \<Rightarrow> Some (year, drop 4 v)))"

text \<open>\<^verbatim>\<open>skip(value, prefix)\<close> for a literal text without spaces.\<close>

definition skip :: "string \<Rightarrow> string \<Rightarrow> string option" where
  "skip v lit = (if prefix lit v then Some (drop (length lit) v) else None)"

definition commaOrPeriod :: "char \<Rightarrow> bool" where
  "commaOrPeriod c = (c = CHR ''.'' \<or> c = CHR '','')"

text \<open>
  The fractional second that may follow the seconds: when the value goes on with a period
  or comma and a digit, all the digits that follow are consumed, and the first nine of them
  are the nanoseconds (\<^verbatim>\<open>parseNanoseconds\<close>).
\<close>

definition parse_fraction :: "string \<Rightarrow> int \<times> string" where
  "parse_fraction v =
     (if 2 \<le> length v \<and> commaOrPeriod (v ! 0) \<and> isDigit v 1 then
        (let ds = takeWhile is_digit (tl v);
             ns = (case atoi_digits 0 (take 9 ds) of Some n \<Rightarrow> n | None \<Rightarrow> 0)
         in (ns * 10 ^ (9 - min 9 (length ds)), drop (Suc (length ds)) v))
      else (0, v))"

definition isLeap :: "int \<Rightarrow> bool" where
  "isLeap year = (year mod 4 = 0 \<and> (year mod 100 \<noteq> 0 \<or> year mod 400 = 0))"

definition daysIn :: "int \<Rightarrow> int \<Rightarrow> int" where
  "daysIn m year =
     (if m = 2 then (if isLeap year then 29 else 28)
      else if m = 4 \<or> m = 6 \<or> m = 9 \<or> m = 11 then 30
      else 31)"

text \<open>
  The elements in the order of the layout. Each is read, then checked against its range
  (the month in 1 to 12, the hour below 24, the minute and the second below 60); the day is
  checked against the month and the year at the end. \<open>None\<close> is any of the library's
  parse errors.
\<close>

definition parse_date :: "string \<Rightarrow> (int \<times> int \<times> int \<times> string) option" where
  "parse_date v0 =
     Option.bind (parse_stdLongYear v0) (\<lambda>(year, v1).
     Option.bind (skip v1 ''-'') (\<lambda>v2.
     Option.bind (getnum v2 True) (\<lambda>(month, v3).
     if month \<le> 0 \<or> 12 < month then None else
     Option.bind (skip v3 ''-'') (\<lambda>v4.
     Option.bind (getnum v4 True) (\<lambda>(day, v5).
     Some (year, month, day, v5))))))"

definition parse_clock :: "string \<Rightarrow> (int \<times> int \<times> int \<times> int \<times> string) option" where
  "parse_clock v5 =
     Option.bind (skip v5 ''T'') (\<lambda>v6.
     Option.bind (getnum v6 False) (\<lambda>(hour, v7).
     if hour < 0 \<or> 24 \<le> hour then None else
     Option.bind (skip v7 '':'') (\<lambda>v8.
     Option.bind (getnum v8 True) (\<lambda>(minute, v9).
     if minute < 0 \<or> 60 \<le> minute then None else
     Option.bind (skip v9 '':'') (\<lambda>v10.
     Option.bind (getnum v10 True) (\<lambda>(sec, v11).
     if sec < 0 \<or> 60 \<le> sec then None else
     (case parse_fraction v11 of (nsec, v12) \<Rightarrow> Some (hour, minute, sec, nsec, v12))))))))"

definition parse_elements :: "string \<Rightarrow> Time option" where
  "parse_elements v0 =
     Option.bind (parse_date v0) (\<lambda>(year, month, day, v5).
     Option.bind (parse_clock v5) (\<lambda>(hour, minute, sec, nsec, v12).
     Option.bind (skip v12 ''Z'') (\<lambda>v13.
     if length v13 \<noteq> 0 then None
     else if day < 1 \<or> day > daysIn month year then None
     else Some (Date year month day hour minute sec nsec))))"

definition time_Parse :: "string \<Rightarrow> error + Time" where
  "time_Parse v = (case parse_elements v of None \<Rightarrow> Inl (ParseError v) | Some t \<Rightarrow> Inr t)"

subsection \<open>parseTimeFromStream and hoursSinceUploadStarted\<close>

text \<open>
  \<^verbatim>\<open>buf.ReadFrom(s)\<close> reads the stream to its end; an error of the reading is returned as
  it is, otherwise the bytes read are parsed with the fixed layout.
\<close>

definition parseTimeFromStream :: "Reader \<Rightarrow> error + Time" where
  "parseTimeFromStream r =
     (case r of
        Reader dateString (Some e) \<Rightarrow> Inl e
      | Reader dateString None \<Rightarrow> time_Parse dateString)"

text \<open>
  The pair \<^verbatim>\<open>(int, error)\<close> is a sum. A failed \<^verbatim>\<open>GetObject\<close> is returned to the caller; a
  failed \<^verbatim>\<open>parseTimeFromStream\<close> is \<^verbatim>\<open>panic(err)\<close> (line 256).
\<close>

definition hoursSinceUploadStarted ::
  "'st S3 \<Rightarrow> string \<Rightarrow> string \<Rightarrow> 'st world \<Rightarrow> (error + int, 'st) outcome" where
  "hoursSinceUploadStarted s bucket key w =
     (let inp = \<lparr>goi_Bucket = Some bucket, goi_Key = Some key\<rparr>;
          (obj, err) = GetObject s (store w) inp;
          w1 = emit (CallGetObject inp) w
      in case err of
           Some e \<Rightarrow> Return (Inl e) w1
         | None \<Rightarrow>
             (case parseTimeFromStream (goo_Body obj) of
                Inl e \<Rightarrow> Panic (PanicError e) w1
              | Inr t \<Rightarrow> Return (Inr (HoursSince s (store w1) t)) w1))"

subsection \<open>removeUploadFolder\<close>

text \<open>The loop \<^verbatim>\<open>for _, o := range objs.Contents\<close> of lines 203 to 214.\<close>

fun removeUploadFolder_objects ::
  "'st S3 \<Rightarrow> string \<Rightarrow> Object list \<Rightarrow> 'st world \<Rightarrow> (unit, 'st) outcome" where
  "removeUploadFolder_objects s bucket [] w = Return () w"
| "removeUploadFolder_objects s bucket (ob # rest) w =
     (let inp = \<lparr>doi_Bucket = Some bucket, doi_Key = obj_Key ob\<rparr>;
          (err, st') = DeleteObject s (store w) inp;
          w1 = (emit (CallDeleteObject inp) w)\<lparr>store := st'\<rparr>
      in case err of
           Some e \<Rightarrow> Panic (PanicError e) w1
         | None \<Rightarrow>
             (case obj_Key ob of
                None \<Rightarrow> Panic NilDereference w1
              | Some key \<Rightarrow> removeUploadFolder_objects s bucket rest (println (RemovingObject key) w1)))"

text \<open>
  The parameter \<^verbatim>\<open>prefix\<close> is the key of the marker. The listing is asked once, with no
  \<^verbatim>\<open>MaxKeys\<close> and no \<^verbatim>\<open>ContinuationToken\<close>, and its \<^verbatim>\<open>IsTruncated\<close> is not read.
\<close>

definition uploadsFolder :: "string \<Rightarrow> string" where
  "uploadsFolder pfx = (let keyParts = strings_Split pfx CHR ''/'' in strings_Join (butlast keyParts) ''/'')"

definition removeUploadFolder :: "'st S3 \<Rightarrow> string \<Rightarrow> string \<Rightarrow> 'st world \<Rightarrow> (unit, 'st) outcome" where
  "removeUploadFolder s bucket pfx w =
     (let inp = \<lparr>lvi_Bucket = Some bucket, lvi_Prefix = Some (uploadsFolder pfx),
                lvi_MaxKeys = None, lvi_ContinuationToken = None\<rparr>;
          (objs, err) = ListObjectsV2 s (store w) inp;
          w1 = emit (CallListObjectsV2 inp) w
      in case err of
           Some e \<Rightarrow> Panic (PanicError e) w1
         | None \<Rightarrow> removeUploadFolder_objects s bucket (lvo_Contents objs) w1)"

subsection \<open>cleanUploadFolders\<close>

definition is_marker :: "string \<Rightarrow> bool" where
  "is_marker key = (strings_Contains key ''/_uploads/'' \<and> strings_HasSuffix key ''/startedat'')"

text \<open>The body of \<^verbatim>\<open>for _, o := range objs.Contents\<close> (lines 166 to 183), for one object.\<close>

definition cleanUploadFolders_object ::
  "'st S3 \<Rightarrow> Opts \<Rightarrow> string \<Rightarrow> Object \<Rightarrow> 'st world \<Rightarrow> (unit, 'st) outcome" where
  "cleanUploadFolders_object s opts bucket ob w =
     (case obj_Key ob of
        None \<Rightarrow> Panic NilDereference w
      | Some key \<Rightarrow>
          if is_marker key then
            (case hoursSinceUploadStarted s bucket key w of
               Return (Inl e) w1 \<Rightarrow> Return () (println (ErrorLine e) w1)
             | Return (Inr hoursSince) w1 \<Rightarrow>
                 if hoursSince \<ge> CleanupHours opts then
                   (let w2 = println (RemovingFolder key hoursSince) w1
                    in if \<not> DryRun opts then removeUploadFolder s bucket key w2 else Return () w2)
                 else Return () (println (SkippingFolder key hoursSince) w1)
             | Panic p w1 \<Rightarrow> Panic p w1
             | OutOfFuel \<Rightarrow> OutOfFuel)
          else Return () w)"

fun cleanUploadFolders_contents ::
  "'st S3 \<Rightarrow> Opts \<Rightarrow> string \<Rightarrow> Object list \<Rightarrow> 'st world \<Rightarrow> (unit, 'st) outcome" where
  "cleanUploadFolders_contents s opts bucket [] w = Return () w"
| "cleanUploadFolders_contents s opts bucket (ob # rest) w =
     (case cleanUploadFolders_object s opts bucket ob w of
        Return u w' \<Rightarrow> cleanUploadFolders_contents s opts bucket rest w'
      | Panic p w' \<Rightarrow> Panic p w'
      | OutOfFuel \<Rightarrow> OutOfFuel)"

text \<open>
  The loop \<^verbatim>\<open>for shouldContinue\<close> (lines 153 to 187); its state is \<^verbatim>\<open>continuationToken\<close>
  (a pointer, \<^verbatim>\<open>nil\<close> at first) and the world. An error of the listing is printed and the
  loop body goes on with the output struct.
\<close>

fun cleanUploadFolders_loop ::
  "nat \<Rightarrow> 'st S3 \<Rightarrow> Opts \<Rightarrow> string \<Rightarrow> string \<Rightarrow> string option \<Rightarrow> 'st world \<Rightarrow> (unit, 'st) outcome" where
  "cleanUploadFolders_loop 0 s opts bucket pfx continuationToken w = OutOfFuel"
| "cleanUploadFolders_loop (Suc fuel) s opts bucket pfx continuationToken w =
     (let inp = \<lparr>lvi_Bucket = Some bucket, lvi_Prefix = Some pfx,
                lvi_MaxKeys = Some MaxResultCount, lvi_ContinuationToken = continuationToken\<rparr>;
          (objs, err) = ListObjectsV2 s (store w) inp;
          w1 = emit (CallListObjectsV2 inp) w;
          w2 = (case err of Some e \<Rightarrow> println (ListingError e) w1 | None \<Rightarrow> w1)
      in case cleanUploadFolders_contents s opts bucket (lvo_Contents objs) w2 of
           Return u w3 \<Rightarrow>
             (case lvo_IsTruncated objs of
                None \<Rightarrow> Panic NilDereference w3
              | Some shouldContinue \<Rightarrow>
                  if shouldContinue
                  then cleanUploadFolders_loop fuel s opts bucket pfx (lvo_NextContinuationToken objs) w3
                  else Return () w3)
         | Panic p w3 \<Rightarrow> Panic p w3
         | OutOfFuel \<Rightarrow> OutOfFuel)"

definition cleanUploadFolders ::
  "nat \<Rightarrow> 'st S3 \<Rightarrow> Opts \<Rightarrow> string \<Rightarrow> string \<Rightarrow> 'st world \<Rightarrow> (unit, 'st) outcome" where
  "cleanUploadFolders fuel s opts bucket pfx w = cleanUploadFolders_loop fuel s opts bucket pfx None w"

subsection \<open>main\<close>

text \<open>
  The loop \<^verbatim>\<open>for i, cp := range objs.CommonPrefixes\<close> (lines 81 to 86), from index \<open>i\<close> on.
  \<open>inner\<close> is the fuel of each reaper's own loop.
\<close>

fun main_prefixes ::
  "nat \<Rightarrow> 'st S3 \<Rightarrow> Opts \<Rightarrow> nat \<Rightarrow> CommonPrefix list \<Rightarrow> int \<Rightarrow> 'st world \<Rightarrow> (int, 'st) outcome" where
  "main_prefixes inner s opts i [] totalRemoved w = Return totalRemoved w"
| "main_prefixes inner s opts i (cp # rest) totalRemoved w =
     (case cp_Prefix cp of
        None \<Rightarrow> Panic NilDereference w
      | Some p \<Rightarrow>
          (case cleanMPUs inner s opts (Bucket opts) p (println (PrefixLine i p) w) of
             Return n w' \<Rightarrow> main_prefixes inner s opts (Suc i) rest (totalRemoved + n) w'
           | Panic q w' \<Rightarrow> Panic q w'
           | OutOfFuel \<Rightarrow> OutOfFuel))"

text \<open>
  Lines 81 to 90, what the loop does with a page once the cursor is read: the reaper of
  multipart uploads for each common prefix, then, unless \<^verbatim>\<open>opts.DryRun\<close>, the reaper of
  upload folders once, with \<^verbatim>\<open>*objs.Prefix\<close>.
\<close>

definition main_page ::
  "nat \<Rightarrow> 'st S3 \<Rightarrow> Opts \<Rightarrow> CommonPrefix list \<Rightarrow> string option \<Rightarrow> int \<Rightarrow> 'st world \<Rightarrow> (int, 'st) outcome" where
  "main_page inner s opts commonPrefixes objsPrefix totalRemoved w =
     (case main_prefixes inner s opts 0 commonPrefixes totalRemoved w of
        Return totalRemoved' w1 \<Rightarrow>
          (case objsPrefix of
             None \<Rightarrow> Panic NilDereference w1
           | Some p \<Rightarrow>
               let w2 = println (RemovingUploadFolders p) w1 in
               if \<not> DryRun opts then
                 (case cleanUploadFolders inner s opts (Bucket opts) p w2 of
                    Return u w3 \<Rightarrow> Return totalRemoved' w3
                  | Panic q w3 \<Rightarrow> Panic q w3
                  | OutOfFuel \<Rightarrow> OutOfFuel)
               else Return totalRemoved' w2)
      | Panic q w1 \<Rightarrow> Panic q w1
      | OutOfFuel \<Rightarrow> OutOfFuel)"

text \<open>
  The loop \<^verbatim>\<open>for isTruncated\<close> of \<^verbatim>\<open>main\<close> (lines 63 to 91); its state is \<^verbatim>\<open>marker\<close>,
  \<^verbatim>\<open>totalRemoved\<close> and the world. \<^verbatim>\<open>NextMarker\<close> is dereferenced only under
  \<^verbatim>\<open>if isTruncated\<close>.
\<close>

fun main_loop ::
  "nat \<Rightarrow> nat \<Rightarrow> 'st S3 \<Rightarrow> Opts \<Rightarrow> string \<Rightarrow> string \<Rightarrow> int \<Rightarrow> 'st world \<Rightarrow> (int, 'st) outcome" where
  "main_loop inner 0 s opts pfx marker totalRemoved w = OutOfFuel"
| "main_loop inner (Suc fuel) s opts pfx marker totalRemoved w =
     (let inp = \<lparr>loi_MaxKeys = Some MaxResultCount, loi_Bucket = Some (Bucket opts),
                loi_Prefix = Some pfx, loi_Delimiter = Some ''/'', loi_Marker = Some marker\<rparr>;
          (objs, err) = ListObjects s (store w) inp;
          w1 = emit (CallListObjects inp) w
      in case err of
           Some e \<Rightarrow> Panic (PanicError e) w1
         | None \<Rightarrow>
             (case loo_IsTruncated objs of
                None \<Rightarrow> Panic NilDereference w1
              | Some isTruncated \<Rightarrow>
                  if isTruncated then
                    (let w2 = println ResultTruncated w1 in
                     case loo_NextMarker objs of
                       None \<Rightarrow> Panic NilDereference w2
                     | Some marker' \<Rightarrow>
                         (case main_page inner s opts (loo_CommonPrefixes objs) (loo_Prefix objs) totalRemoved w2 of
                            Return totalRemoved' w3 \<Rightarrow> main_loop inner fuel s opts pfx marker' totalRemoved' w3
                          | Panic q w3 \<Rightarrow> Panic q w3
                          | OutOfFuel \<Rightarrow> OutOfFuel))
                  else main_page inner s opts (loo_CommonPrefixes objs) (loo_Prefix objs) totalRemoved w1))"

text \<open>
  \<^verbatim>\<open>main\<close> from line 44 on, with the parsed options as a parameter. The fuel bounds the
  pages of each of the three loops.
\<close>

definition repositories_prefix :: "Opts \<Rightarrow> string" where
  "repositories_prefix opts =
     (if length (RootDirectory opts) > 0
      then RootDirectory opts @ ''/docker/registry/v2/repositories/''
      else ''docker/registry/v2/repositories/'')"

definition main :: "nat \<Rightarrow> 'st S3 \<Rightarrow> Opts \<Rightarrow> 'st world \<Rightarrow> (unit, 'st) outcome" where
  "main fuel s opts w =
     (let w1 = (if DryRun opts then println DryRunMode w else w);
          w2 = println (OptCleanupHours (CleanupHours opts)) w1;
          w3 = println (OptEndpoint (Endpoint opts)) w2;
          w4 = println (OptBucket (Bucket opts)) w3;
          w5 = println (OptRootDirectory (RootDirectory opts)) w4;
          pfx = repositories_prefix opts;
          w6 = println (PrefixIs pfx) w5
      in case main_loop fuel fuel s opts pfx [] 0 w6 of
           Return totalRemoved w7 \<Rightarrow> Return () (println (TotalMPUsRemoved totalRemoved) w7)
         | Panic q w7 \<Rightarrow> Panic q w7
         | OutOfFuel \<Rightarrow> OutOfFuel)"

subsection \<open>Observations on outcomes and traces\<close>

definition trace_of :: "('a, 'st) outcome \<Rightarrow> event list" where
  "trace_of out = (case out of Return v w \<Rightarrow> trace w | Panic p w \<Rightarrow> trace w | OutOfFuel \<Rightarrow> [])"

definition world_of :: "('a, 'st) outcome \<Rightarrow> 'st world option" where
  "world_of out = (case out of Return v w \<Rightarrow> Some w | Panic p w \<Rightarrow> Some w | OutOfFuel \<Rightarrow> None)"

text \<open>The events a run from \<open>w\<close> added to the trace.\<close>

definition new_events :: "'st world \<Rightarrow> ('a, 'st) outcome \<Rightarrow> event list" where
  "new_events w out = drop (length (trace w)) (trace_of out)"





text \<open>
  The kinds of events each part of the program can add to the trace; \<open>dry\<close> is
  \<^verbatim>\<open>opts.DryRun\<close>.
\<close>

fun remove_event :: "event \<Rightarrow> bool" where
  "remove_event (CallListObjectsV2 inp) = (lvi_MaxKeys inp = None)"
| "remove_event (CallDeleteObject inp) = True"
| "remove_event (Print (RemovingObject key)) = True"
| "remove_event e = False"

fun folder_event :: "bool \<Rightarrow> event \<Rightarrow> bool" where
  "folder_event dry (CallListObjectsV2 inp) = True"
| "folder_event dry (CallGetObject inp) = True"
| "folder_event dry (CallDeleteObject inp) = (\<not> dry)"
| "folder_event dry (Print (ListingError e)) = True"
| "folder_event dry (Print (ErrorLine e)) = True"
| "folder_event dry (Print (RemovingFolder key h)) = True"
| "folder_event dry (Print (SkippingFolder key h)) = True"
| "folder_event dry (Print (RemovingObject key)) = (\<not> dry)"
| "folder_event dry e = False"

fun mpu_event :: "bool \<Rightarrow> event \<Rightarrow> bool" where
  "mpu_event dry (CallListMultipartUploads inp) = True"
| "mpu_event dry (CallAbortMultipartUpload inp) = (\<not> dry)"
| "mpu_event dry (Print OutputTruncated) = True"
| "mpu_event dry (Print (MPUsFound n)) = True"
| "mpu_event dry (Print (UploadLine i key)) = True"
| "mpu_event dry (Print (StartedHoursAgo h)) = True"
| "mpu_event dry (Print (AbortCandidate bucket key uploadId)) = True"
| "mpu_event dry (Print (ErrorLine e)) = (\<not> dry)"
| "mpu_event dry (Print RemovedLine) = (\<not> dry)"
| "mpu_event dry (Print (RemovedCount n)) = True"
| "mpu_event dry e = False"

fun driver_event :: "event \<Rightarrow> bool" where
  "driver_event (CallListObjects inp) = True"
| "driver_event (Print DryRunMode) = True"
| "driver_event (Print (OptCleanupHours h)) = True"
| "driver_event (Print (OptEndpoint e)) = True"
| "driver_event (Print (OptBucket b)) = True"
| "driver_event (Print (OptRootDirectory d)) = True"
| "driver_event (Print (PrefixIs p)) = True"
| "driver_event (Print (TotalMPUsRemoved n)) = True"
| "driver_event (Print ResultTruncated) = True"
| "driver_event (Print (PrefixLine i p)) = True"
| "driver_event (Print (RemovingUploadFolders p)) = True"
| "driver_event e = False"


text \<open>
  The same kinds for one run of a reaper with the prefix \<open>pfx\<close>: its listings of multipart
  uploads, and its paged listings of objects (the ones with \<^verbatim>\<open>MaxKeys\<close>), carry that prefix;
  the listing of \<^verbatim>\<open>removeUploadFolder\<close> has no \<^verbatim>\<open>MaxKeys\<close>.
\<close>

definition mpu_event_of :: "bool \<Rightarrow> string \<Rightarrow> event \<Rightarrow> bool" where
  "mpu_event_of dry pfx e =
     (mpu_event dry e \<and>
      (case e of CallListMultipartUploads inp \<Rightarrow> lmi_Prefix inp = Some pfx | _ \<Rightarrow> True))"

definition folder_event_of :: "bool \<Rightarrow> string \<Rightarrow> event \<Rightarrow> bool" where
  "folder_event_of dry pfx e =
     (folder_event dry e \<and>
      (case e of
         CallListObjectsV2 inp \<Rightarrow>
           (if lvi_MaxKeys inp = None then \<not> dry else lvi_Prefix inp = Some pfx)
       | _ \<Rightarrow> True))"

text \<open>The events of one page of the driver, with common prefixes \<open>cps\<close> and prefix \<open>p\<close>.\<close>

definition page_event :: "bool \<Rightarrow> CommonPrefix list \<Rightarrow> string \<Rightarrow> event \<Rightarrow> bool" where
  "page_event dry cps p e =
     (driver_event e
      \<or> list_ex (\<lambda>cp. case cp_Prefix cp of None \<Rightarrow> False | Some q \<Rightarrow> mpu_event_of dry q e) cps
      \<or> (\<not> dry \<and> folder_event_of False p e))"

text \<open>
  A run from \<open>w\<close> with outcome \<open>out\<close> stays within the kind \<open>K\<close> and keeps the observation
  \<open>obs\<close> of the store: the trace of \<open>w\<close> is extended, by events of kind \<open>K\<close> only, and
  \<open>obs\<close> has the same value on the store it ends with. (With the identity for \<open>obs\<close> the
  store is unchanged.)
\<close>

definition within :: "(event \<Rightarrow> bool) \<Rightarrow> ('st \<Rightarrow> 'o) \<Rightarrow> 'st world \<Rightarrow> ('a, 'st) outcome \<Rightarrow> bool" where
  "within K obs w out =
     (case world_of out of
        None \<Rightarrow> True
      | Some w' \<Rightarrow> prefix (trace w) (trace w') \<and> list_all K (drop (length (trace w)) (trace w'))
                 \<and> obs (store w') = obs (store w))"

subsection \<open>A store in memory, for concrete runs\<close>

text \<open>
  A test double of the client. The objects are pairs of a key and the bytes, in the order
  of the keys; \<^verbatim>\<open>ListObjectsV2\<close> returns the keys that start with the prefix and come after
  the token, at most \<open>fk_page\<close> of them; \<^verbatim>\<open>GetObject\<close> and \<^verbatim>\<open>DeleteObject\<close> fail on a key
  that is not there. The grouped listing and the listing of multipart uploads answer from
  tables indexed by the cursor. Aborting fails for the upload ids in \<open>fk_abort_fails\<close>. The
  clock counts whole hours from the day and the hour of a time to \<open>fk_now\<close>.
\<close>

record fake =
  fk_objects :: "(string \<times> string) list"
  fk_page :: nat
  fk_root :: "(string \<times> ListObjectsOutput \<times> error option) list"
  fk_mpu :: "((string \<times> string) \<times> ListMultipartUploadsOutput \<times> error option) list"
  fk_abort_fails :: "string list"
  fk_aborted :: "string list"
  fk_now :: int

fun key_less :: "string \<Rightarrow> string \<Rightarrow> bool" where
  "key_less [] [] = False"
| "key_less [] (y # ys) = True"
| "key_less (x # xs) [] = False"
| "key_less (x # xs) (y # ys) = ((of_char x :: nat) < of_char y \<or> (x = y \<and> key_less xs ys))"

definition fake_ListObjects :: "fake \<Rightarrow> ListObjectsInput \<Rightarrow> ListObjectsOutput \<times> error option" where
  "fake_ListObjects st inp =
     (case map_of (fk_root st) (case loi_Marker inp of None \<Rightarrow> [] | Some m \<Rightarrow> m) of
        Some r \<Rightarrow> r
      | None \<Rightarrow> (\<lparr>loo_IsTruncated = None, loo_NextMarker = None, loo_CommonPrefixes = [],
                  loo_Prefix = None\<rparr>, Some (RequestError ''InvalidArgument'')))"

definition fake_ListMultipartUploads ::
  "fake \<Rightarrow> ListMultipartUploadsInput \<Rightarrow> ListMultipartUploadsOutput \<times> error option" where
  "fake_ListMultipartUploads st inp =
     (case map_of (fk_mpu st) (case lmi_Prefix inp of None \<Rightarrow> [] | Some p \<Rightarrow> p,
                              case lmi_KeyMarker inp of None \<Rightarrow> [] | Some m \<Rightarrow> m) of
        Some r \<Rightarrow> r
      | None \<Rightarrow> (\<lparr>lmo_IsTruncated = Some False, lmo_NextKeyMarker = Some [], lmo_Uploads = []\<rparr>, None))"

definition fake_AbortMultipartUpload :: "fake \<Rightarrow> AbortMultipartUploadInput \<Rightarrow> error option \<times> fake" where
  "fake_AbortMultipartUpload st inp =
     (case ami_UploadId inp of
        None \<Rightarrow> (Some (RequestError ''InvalidParameter''), st)
      | Some uploadId \<Rightarrow>
          if uploadId \<in> set (fk_abort_fails st) then (Some (RequestError ''NoSuchUpload''), st)
          else (None, st\<lparr>fk_aborted := fk_aborted st @ [uploadId]\<rparr>))"

definition fake_ListObjectsV2 :: "fake \<Rightarrow> ListObjectsV2Input \<Rightarrow> ListObjectsV2Output \<times> error option" where
  "fake_ListObjectsV2 st inp =
     (let p = (case lvi_Prefix inp of None \<Rightarrow> [] | Some p \<Rightarrow> p);
          keys = filter (\<lambda>k. prefix p k \<and>
                              (case lvi_ContinuationToken inp of None \<Rightarrow> True | Some t \<Rightarrow> key_less t k))
                   (map fst (fk_objects st));
          page = take (fk_page st) keys;
          truncated = (fk_page st < length keys)
      in (\<lparr>lvo_Contents = map (\<lambda>k. \<lparr>obj_Key = Some k\<rparr>) page,
           lvo_NextContinuationToken = (if truncated then Some (last page) else None),
           lvo_IsTruncated = Some truncated\<rparr>, None))"

definition fake_GetObject :: "fake \<Rightarrow> GetObjectInput \<Rightarrow> GetObjectOutput \<times> error option" where
  "fake_GetObject st inp =
     (case goi_Key inp of
        None \<Rightarrow> (\<lparr>goo_Body = Reader [] None\<rparr>, Some (RequestError ''InvalidParameter''))
      | Some key \<Rightarrow>
          (case map_of (fk_objects st) key of
             None \<Rightarrow> (\<lparr>goo_Body = Reader [] None\<rparr>, Some (RequestError ''NoSuchKey''))
           | Some bytes \<Rightarrow> (\<lparr>goo_Body = Reader bytes None\<rparr>, None)))"

definition fake_DeleteObject :: "fake \<Rightarrow> DeleteObjectInput \<Rightarrow> error option \<times> fake" where
  "fake_DeleteObject st inp =
     (case doi_Key inp of
        None \<Rightarrow> (Some (RequestError ''InvalidParameter''), st)
      | Some key \<Rightarrow> (None, st\<lparr>fk_objects := filter (\<lambda>(k, b). k \<noteq> key) (fk_objects st)\<rparr>))"

definition fake_HoursSince :: "fake \<Rightarrow> Time \<Rightarrow> int" where
  "fake_HoursSince st t = fk_now st - (t_day t * 24 + t_hour t)"

definition fake_S3 :: "fake S3" where
  "fake_S3 = \<lparr>ListObjects = fake_ListObjects,
             ListMultipartUploads = fake_ListMultipartUploads,
             AbortMultipartUpload = fake_AbortMultipartUpload,
             ListObjectsV2 = fake_ListObjectsV2,
             GetObject = fake_GetObject,
             DeleteObject = fake_DeleteObject,
             HoursSince = fake_HoursSince\<rparr>"

definition fake_empty :: fake where
  "fake_empty = \<lparr>fk_objects = [], fk_page = 1000, fk_root = [], fk_mpu = [],
                fk_abort_fails = [], fk_aborted = [], fk_now = 0\<rparr>"

definition start :: "'st \<Rightarrow> 'st world" where
  "start st = \<lparr>store = st, trace = []\<rparr>"

definition test_opts :: "int \<Rightarrow> bool \<Rightarrow> Opts" where
  "test_opts hours dry = \<lparr>Endpoint = ''http://s3.test'', Bucket = ''registry'', RootDirectory = [],
                          CleanupHours = hours, DryRun = dry\<rparr>"

subsection \<open>Comparing a live run and a dry run\<close>




subsection \<open>The runs of the reapers that make up a page of the driver\<close>

text \<open>
  \<open>mpu_runs inner s opts i cps ns w we\<close>: started in the world \<open>w\<close>, one run of
  \<^verbatim>\<open>cleanMPUs\<close> for each of the common prefixes \<open>cps\<close>, in their order, each after the line
  that names the prefix and each in the world that the run before it left, returns the
  counts \<open>ns\<close> and leaves the world \<open>we\<close>.
\<close>

fun mpu_runs ::
  "nat \<Rightarrow> 'st S3 \<Rightarrow> Opts \<Rightarrow> nat \<Rightarrow> CommonPrefix list \<Rightarrow> int list \<Rightarrow> 'st world \<Rightarrow> 'st world \<Rightarrow> bool" where
  "mpu_runs inner s opts i [] ns w we = (ns = [] \<and> we = w)"
| "mpu_runs inner s opts i (cp # cps) [] w we = False"
| "mpu_runs inner s opts i (cp # cps) (n # ns) w we =
     (case cp_Prefix cp of
        None \<Rightarrow> False
      | Some q \<Rightarrow>
          (case cleanMPUs inner s opts (Bucket opts) q (println (PrefixLine i q) w) of
             Return n' w1 \<Rightarrow> n' = n \<and> mpu_runs inner s opts (Suc i) cps ns w1 we
           | Panic e w1 \<Rightarrow> False
           | OutOfFuel \<Rightarrow> False))"

text \<open>
  \<open>folder_run inner s opts p w we\<close>: what follows the runs of \<^verbatim>\<open>cleanMPUs\<close> on a page whose
  listing echoes the prefix \<open>p\<close>. After the line that names \<open>p\<close>, a live run is one run of
  \<^verbatim>\<open>cleanUploadFolders\<close> with \<open>p\<close>, which returns and leaves \<open>we\<close>; a dry run is the line
  alone.
\<close>

definition folder_run :: "nat \<Rightarrow> 'st S3 \<Rightarrow> Opts \<Rightarrow> string \<Rightarrow> 'st world \<Rightarrow> 'st world \<Rightarrow> bool" where
  "folder_run inner s opts p w we =
     (let w2 = println (RemovingUploadFolders p) w in
      if DryRun opts then we = w2
      else cleanUploadFolders inner s opts (Bucket opts) p w2 = Return () we)"

subsection \<open>Kinds of requests\<close>

fun is_call :: "event \<Rightarrow> bool" where
  "is_call (Print l) = False"
| "is_call e = True"

fun is_paged_listing :: "event \<Rightarrow> bool" where
  "is_paged_listing (CallListObjectsV2 inp) = (lvi_MaxKeys inp \<noteq> None)"
| "is_paged_listing e = False"

subsection \<open>Pages served to a scan\<close>

text \<open>
  What a trace shows of the items a scan went through: the keys of the uploads printed by
  \<^verbatim>\<open>cleanMPUs\<close>, the common prefixes printed by \<^verbatim>\<open>main\<close>, the keys of the markers fetched
  by \<^verbatim>\<open>cleanUploadFolders\<close>; and the listing requests of each scan.
\<close>

fun upload_key_of :: "event \<Rightarrow> string list" where
  "upload_key_of (Print (UploadLine i key)) = [key]"
| "upload_key_of e = []"

definition uploads_seen :: "event list \<Rightarrow> string list" where
  "uploads_seen es = concat (map upload_key_of es)"

fun prefix_of :: "event \<Rightarrow> string list" where
  "prefix_of (Print (PrefixLine i p)) = [p]"
| "prefix_of e = []"

definition prefixes_seen :: "event list \<Rightarrow> string list" where
  "prefixes_seen es = concat (map prefix_of es)"

fun fetched_key_of :: "event \<Rightarrow> string option list" where
  "fetched_key_of (CallGetObject inp) = [goi_Key inp]"
| "fetched_key_of e = []"

definition markers_fetched :: "event list \<Rightarrow> string option list" where
  "markers_fetched es = concat (map fetched_key_of es)"

fun is_mpu_listing :: "event \<Rightarrow> bool" where
  "is_mpu_listing (CallListMultipartUploads inp) = True"
| "is_mpu_listing e = False"

fun is_root_listing :: "event \<Rightarrow> bool" where
  "is_root_listing (CallListObjects inp) = True"
| "is_root_listing e = False"

text \<open>The keys of a page of objects that \<^verbatim>\<open>cleanUploadFolders\<close> takes for markers.\<close>

definition marker_keys :: "Object list \<Rightarrow> string option list" where
  "marker_keys obs =
     filter (\<lambda>k. case k of None \<Rightarrow> False | Some key \<Rightarrow> is_marker key) (map obj_Key obs)"

text \<open>
  The store serves the pages \<open>pages\<close>, in this order, to the loop of \<^verbatim>\<open>cleanMPUs\<close> entered
  with the key marker \<open>keyMarker\<close> in the world \<open>w\<close>: each request is answered without error
  by the next page, every page but the last says it is truncated, every page has its
  \<^verbatim>\<open>NextKeyMarker\<close>, and the uploads of every page are processed without a panic.
\<close>

fun mpu_pages_served ::
  "'st S3 \<Rightarrow> Opts \<Rightarrow> string \<Rightarrow> string \<Rightarrow> ListMultipartUploadsOutput list \<Rightarrow> string \<Rightarrow> int \<Rightarrow> 'st world \<Rightarrow> bool" where
  "mpu_pages_served s opts bucket pfx [] keyMarker totalRemoved w = False"
| "mpu_pages_served s opts bucket pfx (page # pages) keyMarker totalRemoved w =
     (let inp = \<lparr>lmi_Bucket = Some bucket, lmi_Prefix = Some pfx,
                lmi_KeyMarker = Some keyMarker, lmi_MaxUploads = Some MaxResultCount\<rparr>;
          w1 = emit (CallListMultipartUploads inp) w;
          w2 = (if pages \<noteq> [] then println OutputTruncated w1 else w1);
          w3 = println (MPUsFound (length (lmo_Uploads page))) w2
      in ListMultipartUploads s (store w) inp = (page, None)
         \<and> lmo_IsTruncated page = Some (pages \<noteq> [])
         \<and> (case lmo_NextKeyMarker page of
               None \<Rightarrow> False
             | Some keyMarker' \<Rightarrow>
                 (case cleanMPUs_uploads s opts bucket 0 (lmo_Uploads page) totalRemoved w3 of
                    Return totalRemoved' w4 \<Rightarrow>
                      pages = [] \<or> mpu_pages_served s opts bucket pfx pages keyMarker' totalRemoved' w4
                  | Panic p w4 \<Rightarrow> False
                  | OutOfFuel \<Rightarrow> False)))"

text \<open>
  The same for the loop of \<^verbatim>\<open>cleanUploadFolders\<close> entered with the token \<open>token\<close>; the
  next request carries whatever \<^verbatim>\<open>NextContinuationToken\<close> the page has.
\<close>

fun folder_pages_served ::
  "'st S3 \<Rightarrow> Opts \<Rightarrow> string \<Rightarrow> string \<Rightarrow> ListObjectsV2Output list \<Rightarrow> string option \<Rightarrow> 'st world \<Rightarrow> bool" where
  "folder_pages_served s opts bucket pfx [] token w = False"
| "folder_pages_served s opts bucket pfx (page # pages) token w =
     (let inp = \<lparr>lvi_Bucket = Some bucket, lvi_Prefix = Some pfx,
                lvi_MaxKeys = Some MaxResultCount, lvi_ContinuationToken = token\<rparr>;
          w1 = emit (CallListObjectsV2 inp) w
      in ListObjectsV2 s (store w) inp = (page, None)
         \<and> lvo_IsTruncated page = Some (pages \<noteq> [])
         \<and> (case cleanUploadFolders_contents s opts bucket (lvo_Contents page) w1 of
               Return u w3 \<Rightarrow>
                 pages = [] \<or> folder_pages_served s opts bucket pfx pages (lvo_NextContinuationToken page) w3
             | Panic p w3 \<Rightarrow> False
             | OutOfFuel \<Rightarrow> False))"

text \<open>
  The same for the loop of \<^verbatim>\<open>main\<close> entered with the marker \<open>marker\<close>: a truncated page has
  its \<^verbatim>\<open>NextMarker\<close>, and what \<^verbatim>\<open>main\<close> does with each page (the reapers, with the fuel
  \<open>inner\<close>) returns.
\<close>

fun root_pages_served ::
  "nat \<Rightarrow> 'st S3 \<Rightarrow> Opts \<Rightarrow> string \<Rightarrow> ListObjectsOutput list \<Rightarrow> string \<Rightarrow> int \<Rightarrow> 'st world \<Rightarrow> bool" where
  "root_pages_served inner s opts pfx [] marker totalRemoved w = False"
| "root_pages_served inner s opts pfx (page # pages) marker totalRemoved w =
     (let inp = \<lparr>loi_MaxKeys = Some MaxResultCount, loi_Bucket = Some (Bucket opts),
                loi_Prefix = Some pfx, loi_Delimiter = Some ''/'', loi_Marker = Some marker\<rparr>;
          w1 = emit (CallListObjects inp) w;
          w2 = (if pages \<noteq> [] then println ResultTruncated w1 else w1)
      in ListObjects s (store w) inp = (page, None)
         \<and> loo_IsTruncated page = Some (pages \<noteq> [])
         \<and> (case main_page inner s opts (loo_CommonPrefixes page) (loo_Prefix page) totalRemoved w2 of
               Return totalRemoved' w3 \<Rightarrow>
                 pages = [] \<or>
                 (case loo_NextMarker page of
                    None \<Rightarrow> False
                  | Some marker' \<Rightarrow> root_pages_served inner s opts pfx pages marker' totalRemoved' w3)
             | Panic p w3 \<Rightarrow> False
             | OutOfFuel \<Rightarrow> False))"

subsection \<open>Stores for the concrete runs\<close>

text \<open>
  One repository prefix with one multipart upload, started five hours before the clock's
  reading; the store refuses to abort it.
\<close>

definition upload_5h :: MultipartUpload where
  "upload_5h = \<lparr>mu_Key = Some ''repoA/blob'', mu_UploadId = Some ''u1'',
                mu_Initiated = Some (Date 2024 1 1 0 0 0 0)\<rparr>"

definition store_abort_fails :: fake where
  "store_abort_fails = fake_empty
     \<lparr>fk_mpu := [((''repoA/'', []),
                   \<lparr>lmo_IsTruncated = Some False, lmo_NextKeyMarker = Some [],
                     lmo_Uploads = [upload_5h]\<rparr>, None)],
      fk_abort_fails := [''u1''],
      fk_now := 29\<rparr>"

text \<open>
  Two upload folders: the marker of the first does not hold a timestamp, the marker of the
  second is 34 hours old.
\<close>

definition store_bad_marker :: fake where
  "store_bad_marker = fake_empty
     \<lparr>fk_objects := [(''repoA/_uploads/a1/startedat'', ''not a timestamp''),
                      (''repoA/_uploads/b2/startedat'', ''2024-01-01T00:00:00Z'')],
      fk_now := 58\<rparr>"

text \<open>
  Two upload folders, the name of the first a proper prefix of the name of the second:
  the marker of \<^verbatim>\<open>ab\<close> is 34 hours old, the marker of \<^verbatim>\<open>abc\<close> is one hour old.
\<close>

definition store_ab_abc :: fake where
  "store_ab_abc = fake_empty
     \<lparr>fk_objects := [(''repoA/_uploads/ab/startedat'', ''2024-01-01T00:00:00Z''),
                      (''repoA/_uploads/abc/data'', ''layer bytes''),
                      (''repoA/_uploads/abc/startedat'', ''2024-01-02T09:00:00Z'')],
      fk_now := 58\<rparr>"

text \<open>The only page of a listing of multipart uploads, without \<^verbatim>\<open>NextKeyMarker\<close>.\<close>

definition store_no_next_key_marker :: fake where
  "store_no_next_key_marker = fake_empty
     \<lparr>fk_mpu := [((''repoA/'', []),
                   \<lparr>lmo_IsTruncated = Some False, lmo_NextKeyMarker = None,
                     lmo_Uploads = [upload_5h]\<rparr>, None)],
      fk_root := [([], \<lparr>loo_IsTruncated = Some False, loo_NextMarker = None,
                        loo_CommonPrefixes = [], loo_Prefix = Some ''docker/registry/v2/repositories/''\<rparr>,
                   None)],
      fk_now := 29\<rparr>"

text \<open>A first page of the grouped listing that is truncated and has no \<^verbatim>\<open>NextMarker\<close>.\<close>

definition store_truncated_no_marker :: fake where
  "store_truncated_no_marker = fake_empty
     \<lparr>fk_root := [([], \<lparr>loo_IsTruncated = Some True, loo_NextMarker = None,
                        loo_CommonPrefixes = [], loo_Prefix = Some ''docker/registry/v2/repositories/''\<rparr>,
                   None)]\<rparr>"



text \<open>One page of the grouped listing with two repositories, and nothing to remove.\<close>

definition store_two_repos :: fake where
  "store_two_repos = fake_empty
     \<lparr>fk_root := [([], \<lparr>loo_IsTruncated = Some False, loo_NextMarker = None,
                        loo_CommonPrefixes = [\<lparr>cp_Prefix = Some ''docker/registry/v2/repositories/app/''\<rparr>,
                                              \<lparr>cp_Prefix = Some ''docker/registry/v2/repositories/web/''\<rparr>],
                        loo_Prefix = Some ''docker/registry/v2/repositories/''\<rparr>,
                   None)]\<rparr>"

text \<open>One upload folder, 34 hours old, beside a layer link of the same repository.\<close>

definition store_folder_and_link :: fake where
  "store_folder_and_link = fake_empty
     \<lparr>fk_objects := [(''repoA/_layers/sha256/0a1b/link'', ''sha256:0a1b''),
                      (''repoA/_uploads/7f3a/data'', ''layer bytes''),
                      (''repoA/_uploads/7f3a/startedat'', ''2024-01-01T00:00:00Z'')],
      fk_now := 58\<rparr>"

text \<open>The bytes stored under a key of the store in memory.\<close>

definition fake_lookup :: "fake \<Rightarrow> string \<Rightarrow> string option" where
  "fake_lookup st k = map_of (fk_objects st) k"

text \<open>The same store, returning one key for each listing of objects.\<close>

definition store_pages_of_one :: fake where
  "store_pages_of_one = store_folder_and_link\<lparr>fk_page := 1\<rparr>"

text \<open>
  Three multipart uploads of one repository in two pages, none old enough to abort; two
  repositories in two pages of the grouped listing; and, with pages of one key, the two
  objects of an upload folder that is one hour old.
\<close>

definition upload_of :: "string \<Rightarrow> string \<Rightarrow> MultipartUpload" where
  "upload_of key uploadId = \<lparr>mu_Key = Some key, mu_UploadId = Some uploadId,
                             mu_Initiated = Some (Date 2024 1 1 0 0 0 0)\<rparr>"

definition mpu_page1 :: ListMultipartUploadsOutput where
  "mpu_page1 = \<lparr>lmo_IsTruncated = Some True, lmo_NextKeyMarker = Some ''repoA/b'',
                lmo_Uploads = [upload_of ''repoA/a'' ''u1'', upload_of ''repoA/b'' ''u2'']\<rparr>"

definition mpu_page2 :: ListMultipartUploadsOutput where
  "mpu_page2 = \<lparr>lmo_IsTruncated = Some False, lmo_NextKeyMarker = Some [],
                lmo_Uploads = [upload_of ''repoA/c'' ''u3'']\<rparr>"

definition root_page1 :: ListObjectsOutput where
  "root_page1 = \<lparr>loo_IsTruncated = Some True, loo_NextMarker = Some ''repos/app/'',
                 loo_CommonPrefixes = [\<lparr>cp_Prefix = Some ''repos/app/''\<rparr>],
                 loo_Prefix = Some ''repos/''\<rparr>"

definition root_page2 :: ListObjectsOutput where
  "root_page2 = \<lparr>loo_IsTruncated = Some False, loo_NextMarker = None,
                 loo_CommonPrefixes = [\<lparr>cp_Prefix = Some ''repos/web/''\<rparr>],
                 loo_Prefix = Some ''repos/''\<rparr>"

definition store_two_pages :: fake where
  "store_two_pages = fake_empty
     \<lparr>fk_mpu := [((''repoA/'', []), mpu_page1, None), ((''repoA/'', ''repoA/b''), mpu_page2, None)],
      fk_root := [([], root_page1, None), (''repos/app/'', root_page2, None)],
      fk_objects := [(''repoA/_uploads/7f3a/data'', ''layer bytes''),
                      (''repoA/_uploads/7f3a/startedat'', ''2024-01-01T00:00:00Z'')],
      fk_page := 1,
      fk_now := 25\<rparr>"





subsection \<open>The timestamp as the format writes it\<close>








section \<open>Properties\<close>

subsection \<open>The trace only grows\<close>

lemma emit_simps [simp]:
  "store (emit e w) = store w"
  "trace (emit e w) = trace w @ [e]"
  by (simp_all add: emit_def)

lemma println_simps [simp]:
  "store (println l w) = store w"
  "trace (println l w) = trace w @ [Print l]"
  by (simp_all add: println_def)

lemma trace_of_simps [simp]:
  "trace_of (Return v w) = trace w"
  "trace_of (Panic p w) = trace w"
  "trace_of OutOfFuel = []"
  by (simp_all add: trace_of_def)

lemma new_events_append [simp]:
  "trace_of out = trace w @ es \<Longrightarrow> new_events w out = es"
  by (simp add: new_events_def)

lemma removeUploadFolder_objects_extends:
  "\<exists>es. trace_of (removeUploadFolder_objects s bucket obs w) = trace w @ es \<and> list_all remove_event es"
proof (induction obs arbitrary: w)
  case Nil
  then show ?case by simp
next
  case (Cons ob rest)
  let ?inp = "\<lparr>doi_Bucket = Some bucket, doi_Key = obj_Key ob\<rparr>"
  obtain err st' where d: "DeleteObject s (store w) ?inp = (err, st')"
    by (cases "DeleteObject s (store w) ?inp")
  show ?case
  proof (cases err)
    case (Some e)
    with d show ?thesis by simp
  next
    case None
    note noerr = this
    show ?thesis
    proof (cases "obj_Key ob")
      case None
      with d noerr show ?thesis by simp
    next
      case (Some key)
      let ?w2 = "println (RemovingObject key) ((emit (CallDeleteObject ?inp) w)\<lparr>store := st'\<rparr>)"
      from Cons.IH [of ?w2]
      obtain es where "trace_of (removeUploadFolder_objects s bucket rest ?w2)
          = trace w @ CallDeleteObject ?inp # Print (RemovingObject key) # es" "list_all remove_event es"
        by auto
      with d noerr Some show ?thesis by simp
    qed
  qed
qed

lemma removeUploadFolder_extends:
  "\<exists>es. trace_of (removeUploadFolder s bucket key w) =
          trace w @ CallListObjectsV2 \<lparr>lvi_Bucket = Some bucket, lvi_Prefix = Some (uploadsFolder key),
                                       lvi_MaxKeys = None, lvi_ContinuationToken = None\<rparr> # es
        \<and> list_all remove_event es"
proof -
  let ?inp = "\<lparr>lvi_Bucket = Some bucket, lvi_Prefix = Some (uploadsFolder key),
                lvi_MaxKeys = None, lvi_ContinuationToken = None\<rparr>"
  obtain objs err where l: "ListObjectsV2 s (store w) ?inp = (objs, err)"
    by (cases "ListObjectsV2 s (store w) ?inp")
  show ?thesis
  proof (cases err)
    case (Some e)
    with l show ?thesis by (simp add: removeUploadFolder_def)
  next
    case None
    from removeUploadFolder_objects_extends [of s bucket "lvo_Contents objs" "emit (CallListObjectsV2 ?inp) w"]
    obtain es where "trace_of (removeUploadFolder_objects s bucket (lvo_Contents objs) (emit (CallListObjectsV2 ?inp) w))
        = trace w @ CallListObjectsV2 ?inp # es" "list_all remove_event es"
      by auto
    with l None show ?thesis by (simp add: removeUploadFolder_def)
  qed
qed

subsection \<open>What each part can add to the trace\<close>

lemma within_Return [simp]:
  "within K view w (Return v w') =
     (prefix (trace w) (trace w') \<and> list_all K (drop (length (trace w)) (trace w'))
      \<and> view (store w') = view (store w))"
  by (simp add: within_def world_of_def)

lemma within_Panic [simp]:
  "within K view w (Panic p w') =
     (prefix (trace w) (trace w') \<and> list_all K (drop (length (trace w)) (trace w'))
      \<and> view (store w') = view (store w))"
  by (simp add: within_def world_of_def)

lemma within_OutOfFuel [simp]: "within K view w OutOfFuel"
  by (simp add: within_def world_of_def)

lemma within_step:
  assumes "prefix (trace w) (trace w1)" and "list_all K (drop (length (trace w)) (trace w1))"
    and "view (store w1) = view (store w)" and "within K view w1 out"
  shows "within K view w out"
proof (cases "world_of out")
  case None
  then show ?thesis by (simp add: within_def)
next
  case (Some w')
  from assms(1) obtain es1 where e1: "trace w1 = trace w @ es1" by (auto simp: prefix_def)
  from assms(4) Some obtain es2 where e2: "trace w' = trace w1 @ es2"
    and k2: "list_all K es2" and st: "view (store w') = view (store w1)"
    by (auto simp: within_def prefix_def)
  from assms(2) e1 have k1: "list_all K es1" by simp
  from e1 e2 k1 k2 st assms(3) Some show ?thesis
    by (simp add: within_def)
qed

lemma within_mono:
  assumes "within K view w out" and "\<And>e. K e \<Longrightarrow> K' e"
  shows "within K' view w out"
  using assms by (auto simp: within_def list_all_iff split: option.splits)

lemma within_println:
  "K (Print l) \<Longrightarrow> within K view (println l w) out \<Longrightarrow> within K view w out"
  by (rule within_step [where ?w1.0 = "println l w"]) simp_all

lemma within_emit:
  "K e \<Longrightarrow> within K view (emit e w) out \<Longrightarrow> within K view w out"
  by (rule within_step [where ?w1.0 = "emit e w"]) simp_all

lemma within_refl [simp]: "within K view w (Return v w)" "within K view w (Panic p w)"
  by simp_all

lemma within_seq:
  assumes "within K view w out1"
    and "\<And>v w1. out1 = Return v w1 \<Longrightarrow> within K view w1 (k v w1)"
  shows "within K view w (case out1 of Return v w1 \<Rightarrow> k v w1 | Panic p w1 \<Rightarrow> Panic p w1 | OutOfFuel \<Rightarrow> OutOfFuel)"
proof (cases out1)
  case (Return v w1)
  with assms(1) have "prefix (trace w) (trace w1)" "list_all K (drop (length (trace w)) (trace w1))"
    "view (store w1) = view (store w)" by simp_all
  then have "within K view w (k v w1)"
    using assms(2) [OF Return] by (rule within_step)
  with Return show ?thesis by simp
next
  case (Panic p w1)
  with assms(1) show ?thesis by simp
next
  case OutOfFuel
  then show ?thesis by simp
qed

lemma cleanMPUs_upload_within:
  assumes "\<And>st inp. \<not> DryRun opts \<Longrightarrow> view (snd (AbortMultipartUpload s st inp)) = view st"
  shows "within (mpu_event_of (DryRun opts) pfx) view w (cleanMPUs_upload s opts bucket i multi totalRemoved w)"
proof -
  let ?inp = "\<lparr>ami_Bucket = Some bucket, ami_Key = mu_Key multi, ami_UploadId = mu_UploadId multi\<rparr>"
  obtain err st' where ab: "AbortMultipartUpload s (store w) ?inp = (err, st')"
    by (cases "AbortMultipartUpload s (store w) ?inp")
  have "\<not> DryRun opts \<Longrightarrow> view st' = view (store w)"
    using assms [of "store w" ?inp] ab by simp
  with ab show ?thesis
    by (auto simp: cleanMPUs_upload_def Let_def mpu_event_of_def split: option.splits)
qed

lemma cleanMPUs_uploads_within:
  assumes "\<And>st inp. \<not> DryRun opts \<Longrightarrow> view (snd (AbortMultipartUpload s st inp)) = view st"
  shows "within (mpu_event_of (DryRun opts) pfx) view w (cleanMPUs_uploads s opts bucket i ms totalRemoved w)"
proof (induction ms arbitrary: i totalRemoved w)
  case Nil
  then show ?case by simp
next
  case (Cons m ms)
  show ?case
    unfolding cleanMPUs_uploads.simps
    by (rule within_seq [OF cleanMPUs_upload_within]) (simp_all add: assms Cons.IH)
qed

lemma cleanMPUs_loop_within:
  assumes "\<And>st inp. \<not> DryRun opts \<Longrightarrow> view (snd (AbortMultipartUpload s st inp)) = view st"
  shows "within (mpu_event_of (DryRun opts) pfx) view w
           (cleanMPUs_loop fuel s opts bucket pfx keyMarker totalRemoved w)"
proof (induction fuel arbitrary: keyMarker totalRemoved w)
  case 0
  then show ?case by simp
next
  case (Suc fuel)
  let ?inp = "\<lparr>lmi_Bucket = Some bucket, lmi_Prefix = Some pfx, lmi_KeyMarker = Some keyMarker,
               lmi_MaxUploads = Some MaxResultCount\<rparr>"
  let ?K = "mpu_event_of (DryRun opts) pfx"
  obtain resp err where l: "ListMultipartUploads s (store w) ?inp = (resp, err)"
    by (cases "ListMultipartUploads s (store w) ?inp")
  show ?case
  proof (cases "err = None \<and> lmo_IsTruncated resp \<noteq> None \<and> lmo_NextKeyMarker resp \<noteq> None")
    case False
    with l show ?thesis by (auto simp: Let_def mpu_event_of_def split: option.splits)
  next
    case True
    then obtain isTruncated keyMarker' where t: "err = None" "lmo_IsTruncated resp = Some isTruncated"
      "lmo_NextKeyMarker resp = Some keyMarker'" by auto
    let ?w3 = "println (MPUsFound (length (lmo_Uploads resp)))
                 (if isTruncated then println OutputTruncated (emit (CallListMultipartUploads ?inp) w)
                  else emit (CallListMultipartUploads ?inp) w)"
    have "within ?K view ?w3
            (case cleanMPUs_uploads s opts bucket 0 (lmo_Uploads resp) totalRemoved ?w3 of
               Return totalRemoved' w4 \<Rightarrow>
                 if isTruncated then cleanMPUs_loop fuel s opts bucket pfx keyMarker' totalRemoved' w4
                 else Return totalRemoved' w4
             | Panic p w4 \<Rightarrow> Panic p w4
             | OutOfFuel \<Rightarrow> OutOfFuel)"
      by (rule within_seq [OF cleanMPUs_uploads_within]) (simp_all add: assms Suc.IH)
    then have "within ?K view w
            (case cleanMPUs_uploads s opts bucket 0 (lmo_Uploads resp) totalRemoved ?w3 of
               Return totalRemoved' w4 \<Rightarrow>
                 if isTruncated then cleanMPUs_loop fuel s opts bucket pfx keyMarker' totalRemoved' w4
                 else Return totalRemoved' w4
             | Panic p w4 \<Rightarrow> Panic p w4
             | OutOfFuel \<Rightarrow> OutOfFuel)"
      by (rule within_step [rotated 3]) (auto simp: prefix_def mpu_event_of_def)
    with l t show ?thesis by (simp add: Let_def)
  qed
qed

lemma cleanMPUs_within:
  assumes "\<And>st inp. \<not> DryRun opts \<Longrightarrow> view (snd (AbortMultipartUpload s st inp)) = view st"
  shows "within (mpu_event_of (DryRun opts) pfx) view w (cleanMPUs fuel s opts bucket pfx w)"
  unfolding cleanMPUs_def
  by (rule within_seq [OF cleanMPUs_loop_within]) (simp_all add: assms mpu_event_of_def)

lemma removeUploadFolder_objects_within:
  assumes "\<And>st inp. view (snd (DeleteObject s st inp)) = view st"
  shows "within remove_event view w (removeUploadFolder_objects s bucket obs w)"
proof (induction obs arbitrary: w)
  case Nil
  then show ?case by simp
next
  case (Cons ob rest)
  let ?inp = "\<lparr>doi_Bucket = Some bucket, doi_Key = obj_Key ob\<rparr>"
  obtain err st' where d: "DeleteObject s (store w) ?inp = (err, st')"
    by (cases "DeleteObject s (store w) ?inp")
  have v: "view st' = view (store w)"
    using assms [of "store w" ?inp] d by simp
  show ?case
  proof (cases "err = None \<and> obj_Key ob \<noteq> None")
    case False
    with d v show ?thesis by (auto simp: Let_def split: option.splits)
  next
    case True
    then obtain key where k: "err = None" "obj_Key ob = Some key" by auto
    let ?w2 = "println (RemovingObject key) ((emit (CallDeleteObject ?inp) w)\<lparr>store := st'\<rparr>)"
    have "within remove_event view w (removeUploadFolder_objects s bucket rest ?w2)"
      by (rule within_step [OF _ _ _ Cons.IH]) (auto simp: prefix_def v)
    with d k show ?thesis by (simp add: Let_def)
  qed
qed

lemma removeUploadFolder_within:
  assumes "\<And>st inp. view (snd (DeleteObject s st inp)) = view st"
  shows "within remove_event view w (removeUploadFolder s bucket key w)"
proof -
  let ?inp = "\<lparr>lvi_Bucket = Some bucket, lvi_Prefix = Some (uploadsFolder key),
                lvi_MaxKeys = None, lvi_ContinuationToken = None\<rparr>"
  obtain objs err where l: "ListObjectsV2 s (store w) ?inp = (objs, err)"
    by (cases "ListObjectsV2 s (store w) ?inp")
  show ?thesis
  proof (cases err)
    case (Some e)
    with l show ?thesis by (simp add: removeUploadFolder_def Let_def)
  next
    case None
    have "within remove_event view w
            (removeUploadFolder_objects s bucket (lvo_Contents objs) (emit (CallListObjectsV2 ?inp) w))"
      by (rule within_emit [OF _ removeUploadFolder_objects_within]) (simp_all add: assms)
    with l None show ?thesis by (simp add: removeUploadFolder_def Let_def)
  qed
qed

lemma remove_event_folder_event: "remove_event e \<Longrightarrow> folder_event_of False pfx e"
  by (cases e rule: remove_event.cases) (simp_all add: folder_event_of_def)

lemma cleanUploadFolders_object_within:
  assumes "\<And>st inp. \<not> DryRun opts \<Longrightarrow> view (snd (DeleteObject s st inp)) = view st"
  shows "within (folder_event_of (DryRun opts) pfx) view w (cleanUploadFolders_object s opts bucket ob w)"
proof (cases "obj_Key ob")
  case None
  then show ?thesis by (simp add: cleanUploadFolders_object_def)
next
  case (Some key)
  let ?inp = "\<lparr>goi_Bucket = Some bucket, goi_Key = Some key\<rparr>"
  let ?w1 = "emit (CallGetObject ?inp) w"
  obtain obj err where g: "GetObject s (store w) ?inp = (obj, err)"
    by (cases "GetObject s (store w) ?inp")
  show ?thesis
  proof (cases "is_marker key \<and> err = None \<and> (\<exists>t. parseTimeFromStream (goo_Body obj) = Inr t
                   \<and> CleanupHours opts \<le> HoursSince s (store w) t) \<and> \<not> DryRun opts")
    case False
    with Some g show ?thesis
      by (auto simp: cleanUploadFolders_object_def hoursSinceUploadStarted_def Let_def folder_event_of_def
               split: sum.splits option.splits)
  next
    case True
    then obtain t where t: "is_marker key" "err = None" "parseTimeFromStream (goo_Body obj) = Inr t"
      "CleanupHours opts \<le> HoursSince s (store w) t" "\<not> DryRun opts" by auto
    let ?w2 = "println (RemovingFolder key (HoursSince s (store w) t)) ?w1"
    have "within remove_event view ?w2 (removeUploadFolder s bucket key ?w2)"
      by (rule removeUploadFolder_within) (simp add: assms t)
    then have "within (folder_event_of False pfx) view ?w2 (removeUploadFolder s bucket key ?w2)"
      by (rule within_mono) (rule remove_event_folder_event)
    then have "within (folder_event_of False pfx) view w (removeUploadFolder s bucket key ?w2)"
      by (rule within_step [rotated 3]) (auto simp: prefix_def folder_event_of_def)
    with Some g t show ?thesis
      by (simp add: cleanUploadFolders_object_def hoursSinceUploadStarted_def Let_def)
  qed
qed

lemma cleanUploadFolders_contents_within:
  assumes "\<And>st inp. \<not> DryRun opts \<Longrightarrow> view (snd (DeleteObject s st inp)) = view st"
  shows "within (folder_event_of (DryRun opts) pfx) view w (cleanUploadFolders_contents s opts bucket obs w)"
proof (induction obs arbitrary: w)
  case Nil
  then show ?case by simp
next
  case (Cons ob rest)
  show ?case
    unfolding cleanUploadFolders_contents.simps
    by (rule within_seq [OF cleanUploadFolders_object_within]) (simp_all add: assms Cons.IH)
qed

lemma cleanUploadFolders_loop_within:
  assumes "\<And>st inp. \<not> DryRun opts \<Longrightarrow> view (snd (DeleteObject s st inp)) = view st"
  shows "within (folder_event_of (DryRun opts) pfx) view w
     (cleanUploadFolders_loop fuel s opts bucket pfx continuationToken w)"
proof (induction fuel arbitrary: continuationToken w)
  case 0
  then show ?case by simp
next
  case (Suc fuel)
  let ?inp = "\<lparr>lvi_Bucket = Some bucket, lvi_Prefix = Some pfx,
                lvi_MaxKeys = Some MaxResultCount, lvi_ContinuationToken = continuationToken\<rparr>"
  let ?K = "folder_event_of (DryRun opts) pfx"
  obtain objs err where l: "ListObjectsV2 s (store w) ?inp = (objs, err)"
    by (cases "ListObjectsV2 s (store w) ?inp")
  let ?w2 = "case err of Some e \<Rightarrow> println (ListingError e) (emit (CallListObjectsV2 ?inp) w)
             | None \<Rightarrow> emit (CallListObjectsV2 ?inp) w"
  let ?rest = "\<lambda>(u::unit) w3. case lvo_IsTruncated objs of
                 None \<Rightarrow> Panic NilDereference w3
               | Some shouldContinue \<Rightarrow>
                   if shouldContinue
                   then cleanUploadFolders_loop fuel s opts bucket pfx (lvo_NextContinuationToken objs) w3
                   else Return () w3"
  have "within ?K view ?w2
          (case cleanUploadFolders_contents s opts bucket (lvo_Contents objs) ?w2 of
             Return u w3 \<Rightarrow> ?rest u w3 | Panic p w3 \<Rightarrow> Panic p w3 | OutOfFuel \<Rightarrow> OutOfFuel)"
    by (rule within_seq [OF cleanUploadFolders_contents_within])
       (simp_all add: assms Suc.IH split: option.splits)
  then have "within ?K view w
          (case cleanUploadFolders_contents s opts bucket (lvo_Contents objs) ?w2 of
             Return u w3 \<Rightarrow> ?rest u w3 | Panic p w3 \<Rightarrow> Panic p w3 | OutOfFuel \<Rightarrow> OutOfFuel)"
    by (rule within_step [rotated 3]) (auto simp: prefix_def folder_event_of_def split: option.splits)
  with l show ?case by (simp add: Let_def)
qed

lemma cleanUploadFolders_within:
  assumes "\<And>st inp. \<not> DryRun opts \<Longrightarrow> view (snd (DeleteObject s st inp)) = view st"
  shows "within (folder_event_of (DryRun opts) pfx) view w (cleanUploadFolders fuel s opts bucket pfx w)"
  unfolding cleanUploadFolders_def by (rule cleanUploadFolders_loop_within) (rule assms)

lemma main_prefixes_within:
  assumes "\<And>st inp. \<not> DryRun opts \<Longrightarrow> view (snd (AbortMultipartUpload s st inp)) = view st"
    and "\<And>cp q e. cp \<in> set cps \<Longrightarrow> cp_Prefix cp = Some q \<Longrightarrow> mpu_event_of (DryRun opts) q e \<Longrightarrow> K e"
    and "\<And>i q. K (Print (PrefixLine i q))"
  shows "within K view w (main_prefixes inner s opts i cps totalRemoved w)"
  using assms(2)
proof (induction cps arbitrary: i totalRemoved w)
  case Nil
  then show ?case by simp
next
  case (Cons cp rest)
  show ?case
  proof (cases "cp_Prefix cp")
    case None
    then show ?thesis by simp
  next
    case (Some p)
    let ?w1 = "println (PrefixLine i p) w"
    have "within (mpu_event_of (DryRun opts) p) view ?w1 (cleanMPUs inner s opts (Bucket opts) p ?w1)"
      by (rule cleanMPUs_within) (rule assms(1))
    then have "within K view ?w1 (cleanMPUs inner s opts (Bucket opts) p ?w1)"
      by (rule within_mono) (rule Cons.prems [of cp p], simp_all add: Some)
    then have "within K view ?w1
        (case cleanMPUs inner s opts (Bucket opts) p ?w1 of
           Return n w' \<Rightarrow> main_prefixes inner s opts (Suc i) rest (totalRemoved + n) w'
         | Panic q w' \<Rightarrow> Panic q w'
         | OutOfFuel \<Rightarrow> OutOfFuel)"
      by (rule within_seq) (rule Cons.IH, rule Cons.prems, simp_all)
    then have "within K view w
        (case cleanMPUs inner s opts (Bucket opts) p ?w1 of
           Return n w' \<Rightarrow> main_prefixes inner s opts (Suc i) rest (totalRemoved + n) w'
         | Panic q w' \<Rightarrow> Panic q w'
         | OutOfFuel \<Rightarrow> OutOfFuel)"
      by (rule within_println [rotated]) (rule assms(3))
    with Some show ?thesis by simp
  qed
qed

lemma page_event_mpu:
  "cp \<in> set cps \<Longrightarrow> cp_Prefix cp = Some q \<Longrightarrow> mpu_event_of dry q e \<Longrightarrow> page_event dry cps p e"
  by (force simp: page_event_def list_ex_iff)

lemma main_page_tail_within:
  assumes "\<And>st inp. \<not> DryRun opts \<Longrightarrow> view (snd (DeleteObject s st inp)) = view st"
  shows "within (page_event (DryRun opts) cps (case objsPrefix of None \<Rightarrow> [] | Some p \<Rightarrow> p)) view w1
      (case objsPrefix of
         None \<Rightarrow> Panic NilDereference w1
       | Some p \<Rightarrow>
           let w2 = println (RemovingUploadFolders p) w1 in
           if \<not> DryRun opts then
             (case cleanUploadFolders inner s opts (Bucket opts) p w2 of
                Return u w3 \<Rightarrow> Return t w3
              | Panic q w3 \<Rightarrow> Panic q w3
              | OutOfFuel \<Rightarrow> OutOfFuel)
           else Return t w2)"
proof (cases objsPrefix)
  case None
  then show ?thesis by simp
next
  case (Some p)
  let ?w2 = "println (RemovingUploadFolders p) w1"
  show ?thesis
  proof (cases "DryRun opts")
    case True
    with Some show ?thesis by (simp add: page_event_def)
  next
    case False
    let ?K = "page_event False cps p"
    have "within (folder_event_of (DryRun opts) p) view ?w2 (cleanUploadFolders inner s opts (Bucket opts) p ?w2)"
      by (rule cleanUploadFolders_within) (rule assms)
    then have "within ?K view ?w2 (cleanUploadFolders inner s opts (Bucket opts) p ?w2)"
      by (rule within_mono) (simp add: False page_event_def)
    then have "within ?K view ?w2
        (case cleanUploadFolders inner s opts (Bucket opts) p ?w2 of
            Return u w3 \<Rightarrow> Return t w3
          | Panic q w3 \<Rightarrow> Panic q w3
          | OutOfFuel \<Rightarrow> OutOfFuel)"
      by (rule within_seq) simp
    then have "within ?K view w1
        (case cleanUploadFolders inner s opts (Bucket opts) p ?w2 of
            Return u w3 \<Rightarrow> Return t w3
          | Panic q w3 \<Rightarrow> Panic q w3
          | OutOfFuel \<Rightarrow> OutOfFuel)"
      by (rule within_println [rotated]) (simp add: page_event_def)
    with Some False show ?thesis by simp
  qed
qed

lemma main_page_within:
  assumes "\<And>st inp. \<not> DryRun opts \<Longrightarrow> view (snd (AbortMultipartUpload s st inp)) = view st"
    and "\<And>st inp. \<not> DryRun opts \<Longrightarrow> view (snd (DeleteObject s st inp)) = view st"
  shows "within (page_event (DryRun opts) cps (case objsPrefix of None \<Rightarrow> [] | Some p \<Rightarrow> p)) view w
           (main_page inner s opts cps objsPrefix totalRemoved w)"
  unfolding main_page_def
proof (rule within_seq)
  show "within (page_event (DryRun opts) cps (case objsPrefix of None \<Rightarrow> [] | Some p \<Rightarrow> p)) view w
          (main_prefixes inner s opts 0 cps totalRemoved w)"
    by (rule main_prefixes_within) (auto simp: assms(1) page_event_mpu, simp add: page_event_def)
qed (rule main_page_tail_within, rule assms(2))




subsection \<open>The counter of cleanMPUs and a failed abort\<close>

text \<open>
  C2. In live mode \<^verbatim>\<open>cleanMPUs\<close> should count an upload as removed if and only if its abort
  succeeds. The code increments \<^verbatim>\<open>totalRemoved\<close> on line 142, after the \<^verbatim>\<open>if !opts.DryRun\<close>
  block and whatever the abort returned: with one upload five hours old, a threshold of
  three hours and a store that refuses the abort, the run prints the error and still
  returns and prints a count of 1. (The scan does go on after the failure.)
\<close>

theorem cleanMPUs_counts_failed_abort:
  "cleanMPUs 1 fake_S3 (test_opts 3 False) ''registry'' ''repoA/'' (start store_abort_fails) =
     Return 1
       \<lparr>store = store_abort_fails,
        trace =
          [CallListMultipartUploads
             \<lparr>lmi_Bucket = Some ''registry'', lmi_Prefix = Some ''repoA/'',
              lmi_KeyMarker = Some [], lmi_MaxUploads = Some 1000\<rparr>,
           Print (MPUsFound 1),
           Print (UploadLine 0 ''repoA/blob''),
           Print (StartedHoursAgo 5),
           Print (AbortCandidate ''registry'' ''repoA/blob'' ''u1''),
           CallAbortMultipartUpload
             \<lparr>ami_Bucket = Some ''registry'', ami_Key = Some ''repoA/blob'',
              ami_UploadId = Some ''u1''\<rparr>,
           Print (ErrorLine (RequestError ''NoSuchUpload'')),
           Print (RemovedCount 1)]\<rparr>"
  by code_simp

subsection \<open>A marker that does not parse\<close>

text \<open>
  C3, as stated: the upload folder reaper logs the parse failure, skips the candidate and
  goes on. It does not: with two markers, the first of which does not hold a timestamp, the
  run ends in a panic right after the first marker is fetched, and the second marker, which
  is stale, is never fetched.
\<close>

theorem parse_failure_aborts_scan_counterexample:
  "cleanUploadFolders 1 fake_S3 (test_opts 3 False) ''registry'' ''repoA/'' (start store_bad_marker) =
     Panic (PanicError (ParseError ''not a timestamp''))
       \<lparr>store = store_bad_marker,
        trace =
          [CallListObjectsV2
             \<lparr>lvi_Bucket = Some ''registry'', lvi_Prefix = Some ''repoA/'',
              lvi_MaxKeys = Some 1000, lvi_ContinuationToken = None\<rparr>,
           CallGetObject
             \<lparr>goi_Bucket = Some ''registry'', goi_Key = Some ''repoA/_uploads/a1/startedat''\<rparr>]\<rparr>"
  by code_simp

text \<open>
  C3, amended: for every candidate marker whose bytes are fetched and do not parse,
  \<^verbatim>\<open>hoursSinceUploadStarted\<close> panics with the parse error (line 256). No delete is issued for
  the candidate (the only event added is the \<^verbatim>\<open>GetObject\<close> call and the store is the
  same), nothing is logged, and the scan of the page ends there, whatever objects follow.
\<close>

theorem parse_failure_panics:
  assumes "obj_Key ob = Some key" and "is_marker key"
    and "GetObject s (store w) \<lparr>goi_Bucket = Some bucket, goi_Key = Some key\<rparr> = (obj, None)"
    and "parseTimeFromStream (goo_Body obj) = Inl e"
  shows "cleanUploadFolders_object s opts bucket ob w =
           Panic (PanicError e) (emit (CallGetObject \<lparr>goi_Bucket = Some bucket, goi_Key = Some key\<rparr>) w)
         \<and> cleanUploadFolders_contents s opts bucket (ob # rest) w =
           Panic (PanicError e) (emit (CallGetObject \<lparr>goi_Bucket = Some bucket, goi_Key = Some key\<rparr>) w)"
  using assms by (simp add: cleanUploadFolders_object_def hoursSinceUploadStarted_def)

theorem parse_failure_panics_witness:
  "cleanUploadFolders_contents fake_S3 (test_opts 3 False) ''registry''
       [\<lparr>obj_Key = Some ''repoA/_uploads/a1/startedat''\<rparr>, \<lparr>obj_Key = Some ''repoA/_uploads/b2/startedat''\<rparr>]
       (start store_bad_marker) =
     Panic (PanicError (ParseError ''not a timestamp''))
       (emit (CallGetObject \<lparr>goi_Bucket = Some ''registry'', goi_Key = Some ''repoA/_uploads/a1/startedat''\<rparr>)
          (start store_bad_marker))"
proof -
  have 1: "obj_Key \<lparr>obj_Key = Some ''repoA/_uploads/a1/startedat''\<rparr> = Some ''repoA/_uploads/a1/startedat''"
    by simp
  have 2: "is_marker ''repoA/_uploads/a1/startedat''"
    by code_simp
  have 3: "GetObject fake_S3 (store (start store_bad_marker))
             \<lparr>goi_Bucket = Some ''registry'', goi_Key = Some ''repoA/_uploads/a1/startedat''\<rparr>
           = (\<lparr>goo_Body = Reader ''not a timestamp'' None\<rparr>, None)"
    by code_simp
  have 4: "parseTimeFromStream (goo_Body \<lparr>goo_Body = Reader ''not a timestamp'' None\<rparr>)
           = Inl (ParseError ''not a timestamp'')"
    by code_simp
  from parse_failure_panics [OF 1 2 3 4] show ?thesis by simp
qed

subsection \<open>Folders whose names share a prefix\<close>

text \<open>
  C6. No object of an upload folder should be deleted unless that folder's own marker was
  fetched, parsed and found at least as old as the threshold. \<^verbatim>\<open>removeUploadFolder\<close> lists
  with the prefix \<^verbatim>\<open>.../_uploads/ab\<close>, without a closing \<^verbatim>\<open>/\<close>, and a store that lists
  by prefix of the key also returns the objects of \<^verbatim>\<open>.../_uploads/abc\<close>. In the run below
  the marker of \<^verbatim>\<open>abc\<close> is one hour old and the threshold is three hours; its data and
  its marker are deleted before that marker is fetched, and the later fetch fails.
\<close>

theorem folder_deleted_without_its_marker_read:
  "cleanUploadFolders 1 fake_S3 (test_opts 3 False) ''registry'' ''repoA/'' (start store_ab_abc) =
     Return ()
       \<lparr>store = fake_empty\<lparr>fk_now := 58\<rparr>,
        trace =
          [CallListObjectsV2
             \<lparr>lvi_Bucket = Some ''registry'', lvi_Prefix = Some ''repoA/'',
              lvi_MaxKeys = Some 1000, lvi_ContinuationToken = None\<rparr>,
           CallGetObject \<lparr>goi_Bucket = Some ''registry'', goi_Key = Some ''repoA/_uploads/ab/startedat''\<rparr>,
           Print (RemovingFolder ''repoA/_uploads/ab/startedat'' 34),
           CallListObjectsV2
             \<lparr>lvi_Bucket = Some ''registry'', lvi_Prefix = Some ''repoA/_uploads/ab'',
              lvi_MaxKeys = None, lvi_ContinuationToken = None\<rparr>,
           CallDeleteObject \<lparr>doi_Bucket = Some ''registry'', doi_Key = Some ''repoA/_uploads/ab/startedat''\<rparr>,
           Print (RemovingObject ''repoA/_uploads/ab/startedat''),
           CallDeleteObject \<lparr>doi_Bucket = Some ''registry'', doi_Key = Some ''repoA/_uploads/abc/data''\<rparr>,
           Print (RemovingObject ''repoA/_uploads/abc/data''),
           CallDeleteObject \<lparr>doi_Bucket = Some ''registry'', doi_Key = Some ''repoA/_uploads/abc/startedat''\<rparr>,
           Print (RemovingObject ''repoA/_uploads/abc/startedat''),
           CallGetObject \<lparr>goi_Bucket = Some ''registry'', goi_Key = Some ''repoA/_uploads/abc/startedat''\<rparr>,
           Print (ErrorLine (RequestError ''NoSuchKey''))]\<rparr>"
  by code_simp

subsection \<open>The cursors of the two marker-based listings\<close>

text \<open>
  C10. \<^verbatim>\<open>cleanMPUs\<close> dereferences \<^verbatim>\<open>NextKeyMarker\<close> on every response, the last one
  included: a response without error whose \<^verbatim>\<open>NextKeyMarker\<close> is \<^verbatim>\<open>nil\<close> panics, truncated
  or not, before any upload of that page is looked at, and no iteration of the loop that
  gets such a response returns. The loop of \<^verbatim>\<open>main\<close> does not read \<^verbatim>\<open>NextMarker\<close> on a page
  that is not truncated (what it does is a function of the common prefixes and the prefix
  of the response only), and panics on a truncated page without \<^verbatim>\<open>NextMarker\<close>.
\<close>

theorem NextKeyMarker_read_on_every_page:
  "(ListMultipartUploads s (store w)
        \<lparr>lmi_Bucket = Some bucket, lmi_Prefix = Some pfx, lmi_KeyMarker = Some keyMarker,
         lmi_MaxUploads = Some MaxResultCount\<rparr> = (resp, None)
      \<and> lmo_IsTruncated resp = Some isTruncated \<and> lmo_NextKeyMarker resp = None \<longrightarrow>
    cleanMPUs_loop (Suc fuel) s opts bucket pfx keyMarker totalRemoved w =
      Panic NilDereference
        (emit (CallListMultipartUploads
           \<lparr>lmi_Bucket = Some bucket, lmi_Prefix = Some pfx, lmi_KeyMarker = Some keyMarker,
            lmi_MaxUploads = Some MaxResultCount\<rparr>) w))
   \<and> (lmo_NextKeyMarker (fst (ListMultipartUploads s (store w)
        \<lparr>lmi_Bucket = Some bucket, lmi_Prefix = Some pfx, lmi_KeyMarker = Some keyMarker,
         lmi_MaxUploads = Some MaxResultCount\<rparr>)) = None \<longrightarrow>
      (\<forall>n w'. cleanMPUs_loop (Suc fuel) s opts bucket pfx keyMarker totalRemoved w \<noteq> Return n w'))
   \<and> (ListObjects s (store w)
        \<lparr>loi_MaxKeys = Some MaxResultCount, loi_Bucket = Some (Bucket opts), loi_Prefix = Some pfx,
         loi_Delimiter = Some ''/'', loi_Marker = Some marker\<rparr> = (objs, None)
      \<and> loo_IsTruncated objs = Some False \<longrightarrow>
    main_loop inner (Suc fuel) s opts pfx marker totalRemoved w =
      main_page inner s opts (loo_CommonPrefixes objs) (loo_Prefix objs) totalRemoved
        (emit (CallListObjects
           \<lparr>loi_MaxKeys = Some MaxResultCount, loi_Bucket = Some (Bucket opts), loi_Prefix = Some pfx,
            loi_Delimiter = Some ''/'', loi_Marker = Some marker\<rparr>) w))
   \<and> (ListObjects s (store w)
        \<lparr>loi_MaxKeys = Some MaxResultCount, loi_Bucket = Some (Bucket opts), loi_Prefix = Some pfx,
         loi_Delimiter = Some ''/'', loi_Marker = Some marker\<rparr> = (objs, None)
      \<and> loo_IsTruncated objs = Some True \<and> loo_NextMarker objs = None \<longrightarrow>
    (\<exists>w'. main_loop inner (Suc fuel) s opts pfx marker totalRemoved w = Panic NilDereference w'))"
proof -
  let ?inp = "\<lparr>lmi_Bucket = Some bucket, lmi_Prefix = Some pfx, lmi_KeyMarker = Some keyMarker,
         lmi_MaxUploads = Some MaxResultCount\<rparr>"
  have 2: "lmo_NextKeyMarker (fst (ListMultipartUploads s (store w) ?inp)) = None \<longrightarrow>
      (\<forall>n w'. cleanMPUs_loop (Suc fuel) s opts bucket pfx keyMarker totalRemoved w \<noteq> Return n w')"
    by (cases "ListMultipartUploads s (store w) ?inp") (simp add: Let_def split: option.splits)
  show ?thesis
    using 2 by (auto simp: Let_def split: option.splits)
qed

theorem NextKeyMarker_read_on_every_page_witness:
  "cleanMPUs_loop (Suc 0) fake_S3 (test_opts 3 True) ''registry'' ''repoA/'' [] 0
       (start store_no_next_key_marker) =
     Panic NilDereference
       (emit (CallListMultipartUploads
                \<lparr>lmi_Bucket = Some ''registry'', lmi_Prefix = Some ''repoA/'', lmi_KeyMarker = Some [],
                 lmi_MaxUploads = Some MaxResultCount\<rparr>) (start store_no_next_key_marker))
   \<and> main_loop 1 (Suc 0) fake_S3 (test_opts 3 True) ''docker/registry/v2/repositories/'' [] 0
       (start store_no_next_key_marker) =
     main_page 1 fake_S3 (test_opts 3 True) [] (Some ''docker/registry/v2/repositories/'') 0
       (emit (CallListObjects
                \<lparr>loi_MaxKeys = Some MaxResultCount, loi_Bucket = Some (Bucket (test_opts 3 True)),
                 loi_Prefix = Some ''docker/registry/v2/repositories/'', loi_Delimiter = Some ''/'',
                 loi_Marker = Some []\<rparr>) (start store_no_next_key_marker))
   \<and> (\<exists>w'. main_loop 1 (Suc 0) fake_S3 (test_opts 3 True) ''docker/registry/v2/repositories/'' [] 0
              (start store_truncated_no_marker) = Panic NilDereference w')"
proof -
  let ?resp = "\<lparr>lmo_IsTruncated = Some False, lmo_NextKeyMarker = None, lmo_Uploads = [upload_5h]\<rparr>"
  let ?objs = "\<lparr>loo_IsTruncated = Some False, loo_NextMarker = None, loo_CommonPrefixes = [],
                loo_Prefix = Some ''docker/registry/v2/repositories/''\<rparr>"
  let ?objs' = "\<lparr>loo_IsTruncated = Some True, loo_NextMarker = None, loo_CommonPrefixes = [],
                loo_Prefix = Some ''docker/registry/v2/repositories/''\<rparr>"
  have h1: "ListMultipartUploads fake_S3 (store (start store_no_next_key_marker))
              \<lparr>lmi_Bucket = Some ''registry'', lmi_Prefix = Some ''repoA/'', lmi_KeyMarker = Some [],
               lmi_MaxUploads = Some MaxResultCount\<rparr> = (?resp, None)"
    by code_simp
  have h2: "ListObjects fake_S3 (store (start store_no_next_key_marker))
              \<lparr>loi_MaxKeys = Some MaxResultCount, loi_Bucket = Some (Bucket (test_opts 3 True)),
               loi_Prefix = Some ''docker/registry/v2/repositories/'', loi_Delimiter = Some ''/'',
               loi_Marker = Some []\<rparr> = (?objs, None)"
    by code_simp
  have h3: "ListObjects fake_S3 (store (start store_truncated_no_marker))
              \<lparr>loi_MaxKeys = Some MaxResultCount, loi_Bucket = Some (Bucket (test_opts 3 True)),
               loi_Prefix = Some ''docker/registry/v2/repositories/'', loi_Delimiter = Some ''/'',
               loi_Marker = Some []\<rparr> = (?objs', None)"
    by code_simp
  note a = NextKeyMarker_read_on_every_page
    [where s = fake_S3 and w = "start store_no_next_key_marker" and bucket = "''registry''"
       and pfx = "''repoA/''" and keyMarker = "[]" and resp = ?resp and isTruncated = False
       and fuel = 0 and opts = "test_opts 3 True" and totalRemoved = 0]
  note b = NextKeyMarker_read_on_every_page
    [where s = fake_S3 and w = "start store_no_next_key_marker"
       and pfx = "''docker/registry/v2/repositories/''" and marker = "[]" and objs = ?objs
       and fuel = 0 and opts = "test_opts 3 True" and totalRemoved = 0 and inner = 1]
  note c = NextKeyMarker_read_on_every_page
    [where s = fake_S3 and w = "start store_truncated_no_marker"
       and pfx = "''docker/registry/v2/repositories/''" and marker = "[]" and objs = ?objs'
       and fuel = 0 and opts = "test_opts 3 True" and totalRemoved = 0 and inner = 1]
  from a h1 have 1: "cleanMPUs_loop (Suc 0) fake_S3 (test_opts 3 True) ''registry'' ''repoA/'' [] 0
       (start store_no_next_key_marker) =
     Panic NilDereference
       (emit (CallListMultipartUploads
                \<lparr>lmi_Bucket = Some ''registry'', lmi_Prefix = Some ''repoA/'', lmi_KeyMarker = Some [],
                 lmi_MaxUploads = Some MaxResultCount\<rparr>) (start store_no_next_key_marker))"
    by simp
  from b h2 have 3: "main_loop 1 (Suc 0) fake_S3 (test_opts 3 True) ''docker/registry/v2/repositories/'' [] 0
       (start store_no_next_key_marker) =
     main_page 1 fake_S3 (test_opts 3 True) [] (Some ''docker/registry/v2/repositories/'') 0
       (emit (CallListObjects
                \<lparr>loi_MaxKeys = Some MaxResultCount, loi_Bucket = Some (Bucket (test_opts 3 True)),
                 loi_Prefix = Some ''docker/registry/v2/repositories/'', loi_Delimiter = Some ''/'',
                 loi_Marker = Some []\<rparr>) (start store_no_next_key_marker))"
    by simp
  from c h3 have 4: "\<exists>w'. main_loop 1 (Suc 0) fake_S3 (test_opts 3 True) ''docker/registry/v2/repositories/'' [] 0
              (start store_truncated_no_marker) = Panic NilDereference w'"
    by simp
  from 1 3 4 show ?thesis by simp
qed

subsection \<open>The threshold\<close>

text \<open>
  C5. An item whose age in whole hours is \<open>h\<close> is selected if and only if \<open>h\<close> is at least
  \<^verbatim>\<open>opts.CleanupHours\<close>, so an item whose age equals the threshold is selected. For a
  multipart upload (with its key, upload id and time of initiation present), selected
  means that the line naming the candidate is printed and, in live mode, that the abort is
  issued. For a marker (fetched and parsed), it means that the line \<^verbatim>\<open>Removing folder\<close> is
  printed rather than \<^verbatim>\<open>Skipping folder\<close> and, in live mode, that \<^verbatim>\<open>removeUploadFolder\<close>
  lists the folder.
\<close>

theorem selected_iff_age_at_least_threshold:
  "(mu_Key multi = Some key \<and> mu_UploadId multi = Some uploadId \<and> mu_Initiated multi = Some t
      \<and> h = HoursSince s (store w) t \<longrightarrow>
      (Print (AbortCandidate bucket key uploadId)
         \<in> set (new_events w (cleanMPUs_upload s opts bucket i multi totalRemoved w))) = (CleanupHours opts \<le> h)
      \<and> (\<not> DryRun opts \<longrightarrow>
         (CallAbortMultipartUpload \<lparr>ami_Bucket = Some bucket, ami_Key = Some key, ami_UploadId = Some uploadId\<rparr>
            \<in> set (new_events w (cleanMPUs_upload s opts bucket i multi totalRemoved w))) = (CleanupHours opts \<le> h)))
   \<and> (obj_Key ob = Some key \<and> is_marker key
      \<and> GetObject s (store w) \<lparr>goi_Bucket = Some bucket, goi_Key = Some key\<rparr> = (obj, None)
      \<and> parseTimeFromStream (goo_Body obj) = Inr t \<and> h = HoursSince s (store w) t \<longrightarrow>
      (Print (RemovingFolder key h)
         \<in> set (new_events w (cleanUploadFolders_object s opts bucket ob w))) = (CleanupHours opts \<le> h)
      \<and> (Print (SkippingFolder key h)
         \<in> set (new_events w (cleanUploadFolders_object s opts bucket ob w))) = (h < CleanupHours opts)
      \<and> (\<not> DryRun opts \<longrightarrow>
         (CallListObjectsV2 \<lparr>lvi_Bucket = Some bucket, lvi_Prefix = Some (uploadsFolder key),
                              lvi_MaxKeys = None, lvi_ContinuationToken = None\<rparr>
            \<in> set (new_events w (cleanUploadFolders_object s opts bucket ob w))) = (CleanupHours opts \<le> h)))"
proof (intro conjI impI)
  assume a: "mu_Key multi = Some key \<and> mu_UploadId multi = Some uploadId \<and> mu_Initiated multi = Some t
      \<and> h = HoursSince s (store w) t"
  obtain err st' where ab: "AbortMultipartUpload s (store w)
      \<lparr>ami_Bucket = Some bucket, ami_Key = Some key, ami_UploadId = Some uploadId\<rparr> = (err, st')"
    by (cases "AbortMultipartUpload s (store w)
      \<lparr>ami_Bucket = Some bucket, ami_Key = Some key, ami_UploadId = Some uploadId\<rparr>")
  from a ab show "(Print (AbortCandidate bucket key uploadId)
         \<in> set (new_events w (cleanMPUs_upload s opts bucket i multi totalRemoved w))) = (CleanupHours opts \<le> h)"
    by (auto simp: cleanMPUs_upload_def Let_def new_events_def split: option.splits)
  assume "\<not> DryRun opts"
  with a ab show "(CallAbortMultipartUpload \<lparr>ami_Bucket = Some bucket, ami_Key = Some key, ami_UploadId = Some uploadId\<rparr>
            \<in> set (new_events w (cleanMPUs_upload s opts bucket i multi totalRemoved w))) = (CleanupHours opts \<le> h)"
    by (auto simp: cleanMPUs_upload_def Let_def new_events_def split: option.splits)
next
  assume a: "obj_Key ob = Some key \<and> is_marker key
      \<and> GetObject s (store w) \<lparr>goi_Bucket = Some bucket, goi_Key = Some key\<rparr> = (obj, None)
      \<and> parseTimeFromStream (goo_Body obj) = Inr t \<and> h = HoursSince s (store w) t"
  let ?get = "CallGetObject \<lparr>goi_Bucket = Some bucket, goi_Key = Some key\<rparr>"
  let ?list = "CallListObjectsV2 \<lparr>lvi_Bucket = Some bucket, lvi_Prefix = Some (uploadsFolder key),
                              lvi_MaxKeys = None, lvi_ContinuationToken = None\<rparr>"
  let ?w2 = "println (RemovingFolder key h) (emit ?get w)"
  let ?out = "cleanUploadFolders_object s opts bucket ob w"
  have out: "?out =
      (if CleanupHours opts \<le> h
       then (if \<not> DryRun opts then removeUploadFolder s bucket key ?w2 else Return () ?w2)
       else Return () (println (SkippingFolder key h) (emit ?get w)))"
    using a by (simp add: cleanUploadFolders_object_def hoursSinceUploadStarted_def Let_def)
  obtain es where es: "trace_of (removeUploadFolder s bucket key ?w2) = trace ?w2 @ ?list # es"
      "list_all remove_event es"
    using removeUploadFolder_extends [of s bucket key ?w2] by blast
  have ne: "new_events w ?out =
      (if CleanupHours opts \<le> h
       then (if \<not> DryRun opts then [?get, Print (RemovingFolder key h), ?list] @ es
             else [?get, Print (RemovingFolder key h)])
       else [?get, Print (SkippingFolder key h)])"
    using es(1) by (simp add: out new_events_def)
  have no: "Print (SkippingFolder key h) \<notin> set es" "Print (RemovingFolder key h) \<notin> set es"
    using es(2) by (auto simp: list_all_iff)
  show "(Print (RemovingFolder key h) \<in> set (new_events w ?out)) = (CleanupHours opts \<le> h)"
    by (simp add: ne)
  show "(Print (SkippingFolder key h) \<in> set (new_events w ?out)) = (h < CleanupHours opts)"
    using no by (auto simp add: ne)
  assume "\<not> DryRun opts"
  then show "(?list \<in> set (new_events w ?out)) = (CleanupHours opts \<le> h)"
    by (simp add: ne)
qed

theorem selected_iff_age_at_least_threshold_witness:
  "Print (AbortCandidate ''registry'' ''repoA/blob'' ''u1'')
     \<in> set (new_events (start store_abort_fails)
              (cleanMPUs_upload fake_S3 (test_opts 5 True) ''registry'' 0 upload_5h 0 (start store_abort_fails)))
   \<and> Print (RemovingFolder ''repoA/_uploads/b2/startedat'' 34)
     \<in> set (new_events (start store_bad_marker)
              (cleanUploadFolders_object fake_S3 (test_opts 34 True) ''registry''
                 \<lparr>obj_Key = Some ''repoA/_uploads/b2/startedat''\<rparr> (start store_bad_marker)))"
proof -
  have m: "mu_Key upload_5h = Some ''repoA/blob'' \<and> mu_UploadId upload_5h = Some ''u1''
      \<and> mu_Initiated upload_5h = Some (Date 2024 1 1 0 0 0 0)
      \<and> 5 = HoursSince fake_S3 (store (start store_abort_fails)) (Date 2024 1 1 0 0 0 0)"
    by code_simp
  have f: "obj_Key \<lparr>obj_Key = Some ''repoA/_uploads/b2/startedat''\<rparr> = Some ''repoA/_uploads/b2/startedat''
      \<and> is_marker ''repoA/_uploads/b2/startedat''
      \<and> GetObject fake_S3 (store (start store_bad_marker))
          \<lparr>goi_Bucket = Some ''registry'', goi_Key = Some ''repoA/_uploads/b2/startedat''\<rparr>
        = (\<lparr>goo_Body = Reader ''2024-01-01T00:00:00Z'' None\<rparr>, None)
      \<and> parseTimeFromStream (goo_Body \<lparr>goo_Body = Reader ''2024-01-01T00:00:00Z'' None\<rparr>)
        = Inr (Date 2024 1 1 0 0 0 0)
      \<and> 34 = HoursSince fake_S3 (store (start store_bad_marker)) (Date 2024 1 1 0 0 0 0)"
    by code_simp
  have t5: "CleanupHours (test_opts 5 True) \<le> 5" and t34: "CleanupHours (test_opts 34 True) \<le> 34"
    by (simp_all add: test_opts_def)
  from selected_iff_age_at_least_threshold
    [where multi = upload_5h and key = "''repoA/blob''" and uploadId = "''u1''"
       and t = "Date 2024 1 1 0 0 0 0" and h = 5 and s = fake_S3 and w = "start store_abort_fails"
       and bucket = "''registry''" and opts = "test_opts 5 True" and i = 0 and totalRemoved = 0]
    m t5
  have 1: "Print (AbortCandidate ''registry'' ''repoA/blob'' ''u1'')
     \<in> set (new_events (start store_abort_fails)
              (cleanMPUs_upload fake_S3 (test_opts 5 True) ''registry'' 0 upload_5h 0 (start store_abort_fails)))"
    by blast
  from selected_iff_age_at_least_threshold
    [where ob = "\<lparr>obj_Key = Some ''repoA/_uploads/b2/startedat''\<rparr>" and key = "''repoA/_uploads/b2/startedat''"
       and obj = "\<lparr>goo_Body = Reader ''2024-01-01T00:00:00Z'' None\<rparr>"
       and t = "Date 2024 1 1 0 0 0 0" and h = 34 and s = fake_S3 and w = "start store_bad_marker"
       and bucket = "''registry''" and opts = "test_opts 34 True"]
    f t34
  have 2: "Print (RemovingFolder ''repoA/_uploads/b2/startedat'' 34)
     \<in> set (new_events (start store_bad_marker)
              (cleanUploadFolders_object fake_S3 (test_opts 34 True) ''registry''
                 \<lparr>obj_Key = Some ''repoA/_uploads/b2/startedat''\<rparr> (start store_bad_marker)))"
    by blast
  from 1 2 show ?thesis by simp
qed

subsection \<open>Dry run and live run\<close>





















subsection \<open>Which reaper the driver runs with which prefix\<close>

lemma main_prefixes_runs:
  "main_prefixes inner s opts i cps totalRemoved w = Return t wm
     \<longleftrightarrow> (\<exists>ns. mpu_runs inner s opts i cps ns w wm \<and> t = totalRemoved + sum_list ns)"
proof (induction cps arbitrary: i totalRemoved w)
  case Nil
  show ?case by auto
next
  case (Cons cp cps)
  show ?case
  proof (cases "cp_Prefix cp")
    case None
    have "\<not> mpu_runs inner s opts i (cp # cps) ns w wm" for ns
      using None by (cases ns) simp_all
    with None show ?thesis by simp
  next
    case (Some q)
    let ?run = "cleanMPUs inner s opts (Bucket opts) q (println (PrefixLine i q) w)"
    show ?thesis
    proof (cases ?run)
      case (Return n w1)
      have r: "mpu_runs inner s opts i (cp # cps) ns w wm
                 \<longleftrightarrow> (\<exists>ns'. ns = n # ns' \<and> mpu_runs inner s opts (Suc i) cps ns' w1 wm)" for ns
        using Some Return by (cases ns) auto
      have "main_prefixes inner s opts i (cp # cps) totalRemoved w = Return t wm
              \<longleftrightarrow> main_prefixes inner s opts (Suc i) cps (totalRemoved + n) w1 = Return t wm"
        using Some Return by simp
      also have "\<dots> \<longleftrightarrow> (\<exists>ns'. mpu_runs inner s opts (Suc i) cps ns' w1 wm
                                \<and> t = totalRemoved + n + sum_list ns')"
        by (rule Cons.IH)
      also have "\<dots> \<longleftrightarrow> (\<exists>ns. mpu_runs inner s opts i (cp # cps) ns w wm \<and> t = totalRemoved + sum_list ns)"
        unfolding r by (auto simp: add.assoc)
      finally show ?thesis .
    next
      case (Panic e w1)
      have "\<not> mpu_runs inner s opts i (cp # cps) ns w wm" for ns
        using Some Panic by (cases ns) simp_all
      with Some Panic show ?thesis by simp
    next
      case OutOfFuel
      have "\<not> mpu_runs inner s opts i (cp # cps) ns w wm" for ns
        using Some OutOfFuel by (cases ns) simp_all
      with Some OutOfFuel show ?thesis by simp
    qed
  qed
qed

lemma main_page_runs:
  "main_page inner s opts cps (Some p) totalRemoved w = Return t w'
     \<longleftrightarrow> (\<exists>ns wm. mpu_runs inner s opts 0 cps ns w wm \<and> t = totalRemoved + sum_list ns
                  \<and> folder_run inner s opts p wm w')"
proof
  assume r: "main_page inner s opts cps (Some p) totalRemoved w = Return t w'"
  then obtain t1 wm where m: "main_prefixes inner s opts 0 cps totalRemoved w = Return t1 wm"
    by (cases "main_prefixes inner s opts 0 cps totalRemoved w") (simp_all add: main_page_def)
  from m obtain ns where ns: "mpu_runs inner s opts 0 cps ns w wm" "t1 = totalRemoved + sum_list ns"
    unfolding main_prefixes_runs by (elim exE conjE)
  from r m have "t = t1 \<and> folder_run inner s opts p wm w'"
    by (cases "DryRun opts")
       (auto simp: main_page_def folder_run_def Let_def split: outcome.splits)
  with ns show "\<exists>ns wm. mpu_runs inner s opts 0 cps ns w wm \<and> t = totalRemoved + sum_list ns
                  \<and> folder_run inner s opts p wm w'"
    by blast
next
  assume "\<exists>ns wm. mpu_runs inner s opts 0 cps ns w wm \<and> t = totalRemoved + sum_list ns
                  \<and> folder_run inner s opts p wm w'"
  then obtain ns wm where ns: "mpu_runs inner s opts 0 cps ns w wm" and t: "t = totalRemoved + sum_list ns"
    and f: "folder_run inner s opts p wm w'"
    by (elim exE conjE)
  from ns t have m: "main_prefixes inner s opts 0 cps totalRemoved w = Return t wm"
    unfolding main_prefixes_runs by blast
  from f show "main_page inner s opts cps (Some p) totalRemoved w = Return t w'"
    by (cases "DryRun opts") (simp_all add: main_page_def m folder_run_def Let_def)
qed

lemma within_worldE:
  assumes "within K view w out" and "world_of out = Some w'"
  obtains es where "trace w' = trace w @ es" and "list_all K es"
  using assms by (auto simp: within_def prefix_def)

lemma mpu_event_not_paged: "mpu_event_of dry q e \<Longrightarrow> \<not> is_paged_listing e"
  by (cases "(dry, e)" rule: mpu_event.cases) (simp_all add: mpu_event_of_def)

lemma folder_event_not_mpu_listing: "folder_event_of dry p e \<Longrightarrow> \<not> is_mpu_listing e"
  by (cases "(dry, e)" rule: folder_event.cases) (simp_all add: folder_event_of_def)

lemma filter_empty_of_kind:
  "list_all K es \<Longrightarrow> (\<And>e. K e \<Longrightarrow> \<not> P e) \<Longrightarrow> filter P es = []"
  by (induction es) auto

lemma world_of_cases:
  obtains (world) w' where "world_of out = Some w'" "trace_of out = trace w'"
        | (none) "out = OutOfFuel"
  by (cases out) (simp_all add: world_of_def trace_of_def)

lemma main_page_order:
  "\<exists>es1 es2. new_events w (main_page inner s opts cps (Some p) totalRemoved w) = es1 @ es2
       \<and> filter is_paged_listing es1 = [] \<and> filter is_mpu_listing es2 = []"
proof -
  let ?pre = "main_prefixes inner s opts 0 cps totalRemoved w"
  let ?page = "main_page inner s opts cps (Some p) totalRemoved w"
  have wp: "within (\<lambda>e. \<not> is_paged_listing e) (\<lambda>st. ()) w ?pre"
    by (rule main_prefixes_within) (simp_all add: mpu_event_not_paged)
  have trivial: "?page = OutOfFuel \<Longrightarrow> ?thesis"
    by (simp add: new_events_def trace_of_def)
  show ?thesis
  proof (cases ?pre)
    case OutOfFuel
    then have "?page = OutOfFuel" by (simp add: main_page_def)
    then show ?thesis by (rule trivial)
  next
    case (Panic e w1)
    then have pg: "?page = Panic e w1" by (simp add: main_page_def)
    from Panic have "world_of ?pre = Some w1" by (simp add: world_of_def)
    from within_worldE [OF wp this] obtain es1 where
      e1: "trace w1 = trace w @ es1" and k1: "list_all (\<lambda>e. \<not> is_paged_listing e) es1" by blast
    from k1 have f1: "filter is_paged_listing es1 = []" by (rule filter_empty_of_kind)
    from pg e1 have n: "new_events w ?page = es1 @ []" by (simp add: new_events_def)
    show ?thesis
      by (rule exI [of _ es1], rule exI [of _ "[]"]) (intro conjI n f1, simp)
  next
    case (Return t1 w1)
    then have "world_of ?pre = Some w1" by (simp add: world_of_def)
    from within_worldE [OF wp this] obtain es1 where
      e1: "trace w1 = trace w @ es1" and k1: "list_all (\<lambda>e. \<not> is_paged_listing e) es1" by blast
    from k1 have f1: "filter is_paged_listing es1 = []" by (rule filter_empty_of_kind)
    let ?w2 = "println (RemovingUploadFolders p) w1"
    show ?thesis
    proof (cases "DryRun opts")
      case True
      with Return have pg: "?page = Return t1 ?w2" by (simp add: main_page_def)
      with e1 have n: "new_events w ?page = es1 @ [Print (RemovingUploadFolders p)]"
        by (simp add: new_events_def)
      show ?thesis
        by (rule exI [of _ es1], rule exI [of _ "[Print (RemovingUploadFolders p)]"])
           (intro conjI n f1, simp)
    next
      case False
      let ?run = "cleanUploadFolders inner s opts (Bucket opts) p ?w2"
      have wf: "within (folder_event_of (DryRun opts) p) (\<lambda>st. ()) ?w2 ?run"
        by (rule cleanUploadFolders_within) simp
      show ?thesis
      proof (cases ?run rule: world_of_cases)
        case none
        with Return False have "?page = OutOfFuel" by (simp add: main_page_def)
        then show ?thesis by (rule trivial)
      next
        case (world w3)
        from within_worldE [OF wf world(1)] obtain es2 where
          e2: "trace w3 = trace ?w2 @ es2" and k2: "list_all (folder_event_of (DryRun opts) p) es2"
          by blast
        from k2 have f2: "filter is_mpu_listing es2 = []"
          by (rule filter_empty_of_kind) (rule folder_event_not_mpu_listing)
        from Return False world(2) have "trace_of ?page = trace w3"
          by (cases ?run) (simp_all add: main_page_def trace_of_def)
        with e1 e2 have n: "new_events w ?page = es1 @ (Print (RemovingUploadFolders p) # es2)"
          by (simp add: new_events_def)
        from f2 have f2': "filter is_mpu_listing (Print (RemovingUploadFolders p) # es2) = []" by simp
        show ?thesis
          by (rule exI [of _ es1], rule exI [of _ "Print (RemovingUploadFolders p) # es2"])
             (intro conjI n f1 f2')
      qed
    qed
  qed
qed


text \<open>
  C4, as stated: for every common prefix of a page the driver runs the reaper of multipart
  uploads and then the reaper of upload folders with that common prefix. The call of
  \<^verbatim>\<open>cleanUploadFolders\<close> is outside the loop over the common prefixes (line 89) and its
  argument is \<^verbatim>\<open>*objs.Prefix\<close>: in a live run over one page with the two repositories
  \<^verbatim>\<open>app/\<close> and \<^verbatim>\<open>web/\<close>, the only listing of objects is the one under the prefix of all
  repositories.
\<close>

theorem folder_reaper_runs_once_per_page_counterexample:
  "filter is_call (trace_of (main 1 fake_S3 (test_opts 3 False) (start store_two_repos))) =
     [CallListObjects \<lparr>loi_MaxKeys = Some 1000, loi_Bucket = Some ''registry'',
                       loi_Prefix = Some ''docker/registry/v2/repositories/'',
                       loi_Delimiter = Some ''/'', loi_Marker = Some []\<rparr>,
      CallListMultipartUploads \<lparr>lmi_Bucket = Some ''registry'',
                                lmi_Prefix = Some ''docker/registry/v2/repositories/app/'',
                                lmi_KeyMarker = Some [], lmi_MaxUploads = Some 1000\<rparr>,
      CallListMultipartUploads \<lparr>lmi_Bucket = Some ''registry'',
                                lmi_Prefix = Some ''docker/registry/v2/repositories/web/'',
                                lmi_KeyMarker = Some [], lmi_MaxUploads = Some 1000\<rparr>,
      CallListObjectsV2 \<lparr>lvi_Bucket = Some ''registry'',
                         lvi_Prefix = Some ''docker/registry/v2/repositories/'',
                         lvi_MaxKeys = Some 1000, lvi_ContinuationToken = None\<rparr>]"
  by code_simp

text \<open>
  C4, amended. For a page with common prefixes \<open>cps\<close> whose listing echoes the prefix \<open>p\<close>.
  Whatever the outcome: every listing of multipart uploads issued for the page carries the
  prefix of one of the common prefixes; every paged listing of objects carries \<open>p\<close> and is
  issued in a live run only; and all the listings of multipart uploads come before all the
  paged listings of objects, so the reaper of upload folders does not run between two
  common prefixes. And the processing of the page returns (no reaper panics or runs out of
  fuel) exactly when it is this chain of runs: one run of \<^verbatim>\<open>cleanMPUs\<close> for each common
  prefix, in the order of the page, each started where the one before ended, the counts
  added up; then the line naming \<open>p\<close>; then, in a live run, one run of
  \<^verbatim>\<open>cleanUploadFolders\<close> with \<open>p\<close>, whose end is the end of the page, and in a dry run
  nothing more. The reaper of upload folders runs once for a page, not once for a
  repository, and not at all in a dry run.
\<close>

theorem driver_page_is_mpu_runs_then_one_folder_run:
  "(\<forall>e \<in> set (new_events w (main_page inner s opts cps (Some p) totalRemoved w)).
      (\<forall>inp. e = CallListMultipartUploads inp \<longrightarrow> (\<exists>cp \<in> set cps. cp_Prefix cp = lmi_Prefix inp))
      \<and> (is_paged_listing e \<longrightarrow>
           \<not> DryRun opts \<and> (\<exists>inp. e = CallListObjectsV2 inp \<and> lvi_Prefix inp = Some p)))
   \<and> (\<exists>es1 es2. new_events w (main_page inner s opts cps (Some p) totalRemoved w) = es1 @ es2
         \<and> filter is_paged_listing es1 = [] \<and> filter is_mpu_listing es2 = [])
   \<and> (main_page inner s opts cps (Some p) totalRemoved w = Return t w'
        \<longleftrightarrow> (\<exists>ns wm. mpu_runs inner s opts 0 cps ns w wm \<and> t = totalRemoved + sum_list ns
                     \<and> folder_run inner s opts p wm w'))"
proof (intro conjI ballI allI impI)
  fix e
  assume e: "e \<in> set (new_events w (main_page inner s opts cps (Some p) totalRemoved w))"
  have "within (page_event (DryRun opts) cps (case Some p of None \<Rightarrow> [] | Some p \<Rightarrow> p)) (\<lambda>st. ()) w
          (main_page inner s opts cps (Some p) totalRemoved w)"
    by (rule main_page_within) simp_all
  with e have pe: "page_event (DryRun opts) cps p e"
    by (cases "main_page inner s opts cps (Some p) totalRemoved w")
       (auto simp: new_events_def list_all_iff)
  {
    fix inp
    assume "e = CallListMultipartUploads inp"
    with pe show "\<exists>cp \<in> set cps. cp_Prefix cp = lmi_Prefix inp"
      by (auto simp: page_event_def list_ex_iff mpu_event_of_def folder_event_of_def split: option.splits)
  }
  {
    assume "is_paged_listing e"
    with pe show "\<not> DryRun opts"
      by (cases e rule: is_paged_listing.cases)
         (auto simp: page_event_def list_ex_iff mpu_event_of_def folder_event_of_def split: option.splits)
  }
  {
    assume "is_paged_listing e"
    with pe show "\<exists>inp. e = CallListObjectsV2 inp \<and> lvi_Prefix inp = Some p"
      by (cases e rule: is_paged_listing.cases)
         (auto simp: page_event_def list_ex_iff mpu_event_of_def folder_event_of_def split: option.splits)
  }
next
  show "\<exists>es1 es2. new_events w (main_page inner s opts cps (Some p) totalRemoved w) = es1 @ es2
         \<and> filter is_paged_listing es1 = [] \<and> filter is_mpu_listing es2 = []"
    by (rule main_page_order)
next
  show "main_page inner s opts cps (Some p) totalRemoved w = Return t w'
        \<longleftrightarrow> (\<exists>ns wm. mpu_runs inner s opts 0 cps ns w wm \<and> t = totalRemoved + sum_list ns
                     \<and> folder_run inner s opts p wm w')"
    by (rule main_page_runs)
qed

lemma two_repos_page_returns:
  "main_page 1 fake_S3 (test_opts 3 False)
     [\<lparr>cp_Prefix = Some ''docker/registry/v2/repositories/app/''\<rparr>,
      \<lparr>cp_Prefix = Some ''docker/registry/v2/repositories/web/''\<rparr>]
     (Some ''docker/registry/v2/repositories/'') 0 (start store_two_repos)
   = Return 0 (the (world_of (main_page 1 fake_S3 (test_opts 3 False)
     [\<lparr>cp_Prefix = Some ''docker/registry/v2/repositories/app/''\<rparr>,
      \<lparr>cp_Prefix = Some ''docker/registry/v2/repositories/web/''\<rparr>]
     (Some ''docker/registry/v2/repositories/'') 0 (start store_two_repos))))"
  by code_simp

lemma two_repos_page_paged_listings:
  "filter is_paged_listing
     (new_events (start store_two_repos)
        (main_page 1 fake_S3 (test_opts 3 False)
           [\<lparr>cp_Prefix = Some ''docker/registry/v2/repositories/app/''\<rparr>,
            \<lparr>cp_Prefix = Some ''docker/registry/v2/repositories/web/''\<rparr>]
           (Some ''docker/registry/v2/repositories/'') 0 (start store_two_repos)))
   = [CallListObjectsV2 \<lparr>lvi_Bucket = Some ''registry'',
                          lvi_Prefix = Some ''docker/registry/v2/repositories/'',
                          lvi_MaxKeys = Some 1000, lvi_ContinuationToken = None\<rparr>]"
  by code_simp

theorem driver_page_is_mpu_runs_then_one_folder_run_witness:
  "\<not> DryRun (test_opts 3 False)
   \<and> (\<exists>ns wm. mpu_runs 1 fake_S3 (test_opts 3 False) 0
                 [\<lparr>cp_Prefix = Some ''docker/registry/v2/repositories/app/''\<rparr>,
                  \<lparr>cp_Prefix = Some ''docker/registry/v2/repositories/web/''\<rparr>]
                 ns (start store_two_repos) wm
             \<and> (0::int) = 0 + sum_list ns
             \<and> folder_run 1 fake_S3 (test_opts 3 False) ''docker/registry/v2/repositories/'' wm
                 (the (world_of (main_page 1 fake_S3 (test_opts 3 False)
                    [\<lparr>cp_Prefix = Some ''docker/registry/v2/repositories/app/''\<rparr>,
                     \<lparr>cp_Prefix = Some ''docker/registry/v2/repositories/web/''\<rparr>]
                    (Some ''docker/registry/v2/repositories/'') 0 (start store_two_repos)))))
   \<and> filter is_paged_listing
       (new_events (start store_two_repos)
          (main_page 1 fake_S3 (test_opts 3 False)
             [\<lparr>cp_Prefix = Some ''docker/registry/v2/repositories/app/''\<rparr>,
              \<lparr>cp_Prefix = Some ''docker/registry/v2/repositories/web/''\<rparr>]
             (Some ''docker/registry/v2/repositories/'') 0 (start store_two_repos)))
     = [CallListObjectsV2 \<lparr>lvi_Bucket = Some ''registry'',
                            lvi_Prefix = Some ''docker/registry/v2/repositories/'',
                            lvi_MaxKeys = Some 1000, lvi_ContinuationToken = None\<rparr>]"
proof -
  let ?cps = "[\<lparr>cp_Prefix = Some ''docker/registry/v2/repositories/app/''\<rparr>,
               \<lparr>cp_Prefix = Some ''docker/registry/v2/repositories/web/''\<rparr>]"
  let ?p = "''docker/registry/v2/repositories/''"
  let ?w = "start store_two_repos"
  let ?out = "main_page 1 fake_S3 (test_opts 3 False) ?cps (Some ?p) 0 ?w"
  let ?e = "CallListObjectsV2 \<lparr>lvi_Bucket = Some ''registry'', lvi_Prefix = Some ?p,
                               lvi_MaxKeys = Some 1000, lvi_ContinuationToken = None\<rparr>"
  note t = driver_page_is_mpu_runs_then_one_folder_run
    [where w = ?w and inner = 1 and s = fake_S3 and opts = "test_opts 3 False" and cps = ?cps
       and p = ?p and totalRemoved = 0 and t = 0 and w' = "the (world_of ?out)"]
  have "?e \<in> set (filter is_paged_listing (new_events ?w ?out))"
    unfolding two_repos_page_paged_listings by simp
  then have mem: "?e \<in> set (new_events ?w ?out)" by simp
  have paged: "is_paged_listing ?e" by simp
  note a = bspec [OF conjunct1 [OF t] mem]
  note 1 = conjunct1 [OF mp [OF conjunct2 [OF a] paged]]
  note 2 = iffD1 [OF conjunct2 [OF conjunct2 [OF t]] two_repos_page_returns]
  show ?thesis
    by (intro conjI 1 2 two_repos_page_paged_listings)
qed

subsection \<open>What removeUploadFolder deletes\<close>

lemma strings_Split_not_Nil [simp]: "strings_Split a c \<noteq> []"
  by (induction a) (auto split: list.splits)

lemma strings_Split_no_sep: "c \<notin> set b \<Longrightarrow> strings_Split b c = [b]"
  by (induction b) auto

lemma strings_Split_append: "strings_Split (a @ c # b) c = strings_Split a c @ strings_Split b c"
  by (induction a) (auto split: list.splits)

lemma strings_Join_Cons: "strings_Join ((x # p) # ps) sep = x # strings_Join (p # ps) sep"
  by (cases ps) simp_all

lemma strings_Join_Split: "strings_Join (strings_Split a c) [c] = a"
proof (induction a)
  case Nil
  then show ?case by simp
next
  case (Cons x s)
  obtain part parts where sp: "strings_Split s c = part # parts"
    by (cases "strings_Split s c") simp_all
  with Cons show ?case by (simp add: strings_Join_Cons)
qed

lemma uploadsFolder_drops_last_segment:
  "CHR ''/'' \<notin> set b \<Longrightarrow> uploadsFolder (a @ ''/'' @ b) = a"
  by (simp add: uploadsFolder_def strings_Split_append strings_Split_no_sep strings_Join_Split)

lemma removeUploadFolder_objects_calls:
  "\<exists>n \<le> length obs.
     filter is_call (trace_of (removeUploadFolder_objects s bucket obs w))
       = filter is_call (trace w)
         @ map (\<lambda>ob. CallDeleteObject \<lparr>doi_Bucket = Some bucket, doi_Key = obj_Key ob\<rparr>) (take n obs)
     \<and> ((\<exists>w'. removeUploadFolder_objects s bucket obs w = Return () w') \<longrightarrow> n = length obs)"
proof (induction obs arbitrary: w)
  case Nil
  then show ?case by simp
next
  case (Cons ob rest)
  let ?inp = "\<lparr>doi_Bucket = Some bucket, doi_Key = obj_Key ob\<rparr>"
  obtain err st' where d: "DeleteObject s (store w) ?inp = (err, st')"
    by (cases "DeleteObject s (store w) ?inp")
  show ?case
  proof (cases "err = None \<and> obj_Key ob \<noteq> None")
    case False
    with d have "filter is_call (trace_of (removeUploadFolder_objects s bucket (ob # rest) w))
        = filter is_call (trace w) @ map (\<lambda>ob. CallDeleteObject \<lparr>doi_Bucket = Some bucket, doi_Key = obj_Key ob\<rparr>) (take 1 (ob # rest))"
      and "\<not> (\<exists>w'. removeUploadFolder_objects s bucket (ob # rest) w = Return () w')"
      by (auto simp: Let_def split: option.splits)
    then show ?thesis by (intro exI [of _ 1]) simp
  next
    case True
    then obtain key where k: "err = None" "obj_Key ob = Some key" by auto
    let ?w2 = "println (RemovingObject key) ((emit (CallDeleteObject ?inp) w)\<lparr>store := st'\<rparr>)"
    from Cons.IH [of ?w2] obtain n where n: "n \<le> length rest"
      "filter is_call (trace_of (removeUploadFolder_objects s bucket rest ?w2))
       = filter is_call (trace ?w2)
         @ map (\<lambda>ob. CallDeleteObject \<lparr>doi_Bucket = Some bucket, doi_Key = obj_Key ob\<rparr>) (take n rest)"
      "(\<exists>w'. removeUploadFolder_objects s bucket rest ?w2 = Return () w') \<longrightarrow> n = length rest"
      by blast
    from d k have eq: "removeUploadFolder_objects s bucket (ob # rest) w
        = removeUploadFolder_objects s bucket rest ?w2"
      by (simp add: Let_def)
    show ?thesis
      unfolding eq using n by (intro exI [of _ "Suc n"]) simp
  qed
qed

lemma removeUploadFolder_objects_frame:
  assumes keep: "\<And>st inp. doi_Key inp \<noteq> Some k \<Longrightarrow> look (snd (DeleteObject s st inp)) k = look st k"
    and "Some k \<notin> obj_Key ` set obs"
    and "world_of (removeUploadFolder_objects s bucket obs w) = Some w'"
  shows "look (store w') k = look (store w) k"
  using assms(2,3)
proof (induction obs arbitrary: w)
  case Nil
  then show ?case by (simp add: world_of_def)
next
  case (Cons ob rest)
  let ?inp = "\<lparr>doi_Bucket = Some bucket, doi_Key = obj_Key ob\<rparr>"
  obtain err st' where d: "DeleteObject s (store w) ?inp = (err, st')"
    by (cases "DeleteObject s (store w) ?inp")
  from Cons.prems(1) have "doi_Key ?inp \<noteq> Some k" by auto
  from keep [OF this, of "store w"] d have v: "look st' k = look (store w) k" by simp
  show ?case
  proof (cases "err = None \<and> obj_Key ob \<noteq> None")
    case False
    with d v Cons.prems(2) show ?thesis
      by (auto simp: Let_def world_of_def split: option.splits)
  next
    case True
    then obtain key where k: "err = None" "obj_Key ob = Some key" by auto
    let ?w2 = "println (RemovingObject key) ((emit (CallDeleteObject ?inp) w)\<lparr>store := st'\<rparr>)"
    from d k have eq: "removeUploadFolder_objects s bucket (ob # rest) w
        = removeUploadFolder_objects s bucket rest ?w2"
      by (simp add: Let_def)
    from Cons.prems(1) have nk: "Some k \<notin> obj_Key ` set rest" by auto
    from Cons.prems(2) have "world_of (removeUploadFolder_objects s bucket rest ?w2) = Some w'"
      unfolding eq .
    from Cons.IH [OF nk this] v show ?thesis by simp
  qed
qed

lemma map_of_filter_other:
  "key \<noteq> k \<Longrightarrow> map_of (filter (\<lambda>(k', b). k' \<noteq> key) xs) k = map_of xs k"
  by (induction xs) auto

lemma fake_delete_keeps_other_keys:
  "doi_Key inp \<noteq> Some k \<Longrightarrow> fake_lookup (snd (DeleteObject fake_S3 st inp)) k = fake_lookup st k"
  by (cases "doi_Key inp")
     (simp_all add: fake_S3_def fake_DeleteObject_def fake_lookup_def map_of_filter_other)

text \<open>
  C9. \<^verbatim>\<open>removeUploadFolder\<close> issues one listing, without \<^verbatim>\<open>MaxKeys\<close> and without a
  continuation token, under the marker key minus its last segment, and no other listing;
  its delete calls are for the objects of that one response, in order (all of them when it
  returns, the first ones when a delete fails). Hence, on a store whose \<^verbatim>\<open>DeleteObject\<close>
  changes nothing under the other keys (\<open>look\<close> reads the store under a key), a key that
  the response did not name holds after the call what it held before, be it under the
  prefix or not; and when the response names only keys under the prefix, so does every key
  outside the prefix.
\<close>

theorem removeUploadFolder_deletes_only_what_one_listing_returns:
  "(ListObjectsV2 s (store w) \<lparr>lvi_Bucket = Some bucket, lvi_Prefix = Some (uploadsFolder key),
                               lvi_MaxKeys = None, lvi_ContinuationToken = None\<rparr> = (objs, err) \<longrightarrow>
     (\<exists>n \<le> length (lvo_Contents objs).
        filter is_call (new_events w (removeUploadFolder s bucket key w))
          = CallListObjectsV2 \<lparr>lvi_Bucket = Some bucket, lvi_Prefix = Some (uploadsFolder key),
                               lvi_MaxKeys = None, lvi_ContinuationToken = None\<rparr>
            # map (\<lambda>ob. CallDeleteObject \<lparr>doi_Bucket = Some bucket, doi_Key = obj_Key ob\<rparr>)
                (take n (lvo_Contents objs))
        \<and> ((\<exists>w'. removeUploadFolder s bucket key w = Return () w') \<longrightarrow> n = length (lvo_Contents objs)))
     \<and> ((\<forall>st inp. doi_Key inp \<noteq> Some k \<longrightarrow> look (snd (DeleteObject s st inp)) k = look st k)
         \<and> Some k \<notin> obj_Key ` set (lvo_Contents objs)
         \<and> world_of (removeUploadFolder s bucket key w) = Some w' \<longrightarrow>
         look (store w') k = look (store w) k)
     \<and> ((\<forall>st inp. doi_Key inp \<noteq> Some k \<longrightarrow> look (snd (DeleteObject s st inp)) k = look st k)
         \<and> (\<forall>k'. Some k' \<in> obj_Key ` set (lvo_Contents objs) \<longrightarrow> prefix (uploadsFolder key) k')
         \<and> \<not> prefix (uploadsFolder key) k
         \<and> world_of (removeUploadFolder s bucket key w) = Some w' \<longrightarrow>
         look (store w') k = look (store w) k))
   \<and> (CHR ''/'' \<notin> set b \<longrightarrow> uploadsFolder (a @ ''/'' @ b) = a)"
proof (intro conjI impI)
  let ?inp = "\<lparr>lvi_Bucket = Some bucket, lvi_Prefix = Some (uploadsFolder key),
               lvi_MaxKeys = None, lvi_ContinuationToken = None\<rparr>"
  let ?w1 = "emit (CallListObjectsV2 ?inp) w"
  assume l: "ListObjectsV2 s (store w) ?inp = (objs, err)"
  have out: "removeUploadFolder s bucket key w =
      (case err of Some e \<Rightarrow> Panic (PanicError e) ?w1
       | None \<Rightarrow> removeUploadFolder_objects s bucket (lvo_Contents objs) ?w1)"
    using l by (simp add: removeUploadFolder_def Let_def)
  from removeUploadFolder_extends [of s bucket key w] obtain es where
    es: "trace_of (removeUploadFolder s bucket key w) = trace w @ CallListObjectsV2 ?inp # es" by blast
  show "\<exists>n \<le> length (lvo_Contents objs).
        filter is_call (new_events w (removeUploadFolder s bucket key w))
          = CallListObjectsV2 ?inp
            # map (\<lambda>ob. CallDeleteObject \<lparr>doi_Bucket = Some bucket, doi_Key = obj_Key ob\<rparr>)
                (take n (lvo_Contents objs))
        \<and> ((\<exists>w'. removeUploadFolder s bucket key w = Return () w') \<longrightarrow> n = length (lvo_Contents objs))"
  proof (cases err)
    case (Some e)
    with out show ?thesis by (intro exI [of _ 0]) (simp add: new_events_def)
  next
    case None
    from removeUploadFolder_objects_calls [of "lvo_Contents objs" s bucket ?w1]
    obtain n where n: "n \<le> length (lvo_Contents objs)"
      "filter is_call (trace_of (removeUploadFolder_objects s bucket (lvo_Contents objs) ?w1))
       = filter is_call (trace ?w1)
         @ map (\<lambda>ob. CallDeleteObject \<lparr>doi_Bucket = Some bucket, doi_Key = obj_Key ob\<rparr>)
             (take n (lvo_Contents objs))"
      "(\<exists>w'. removeUploadFolder_objects s bucket (lvo_Contents objs) ?w1 = Return () w')
         \<longrightarrow> n = length (lvo_Contents objs)"
      by blast
    have "filter is_call (new_events w (removeUploadFolder s bucket key w))
        = filter is_call (drop (length (trace w)) (trace_of (removeUploadFolder s bucket key w)))"
      by (simp add: new_events_def)
    also have "\<dots> = filter is_call (CallListObjectsV2 ?inp # es)"
      using es by simp
    also have "filter is_call (trace w) @ \<dots> = filter is_call (trace_of (removeUploadFolder s bucket key w))"
      using es by simp
    finally have "filter is_call (trace w) @ filter is_call (new_events w (removeUploadFolder s bucket key w))
        = filter is_call (trace w) @ CallListObjectsV2 ?inp
            # map (\<lambda>ob. CallDeleteObject \<lparr>doi_Bucket = Some bucket, doi_Key = obj_Key ob\<rparr>)
                (take n (lvo_Contents objs))"
      using n(2) out None by simp
    then have "filter is_call (new_events w (removeUploadFolder s bucket key w))
        = CallListObjectsV2 ?inp
            # map (\<lambda>ob. CallDeleteObject \<lparr>doi_Bucket = Some bucket, doi_Key = obj_Key ob\<rparr>)
                (take n (lvo_Contents objs))"
      by simp
    with n(1,3) out None show ?thesis by auto
  qed
  have frame: "look (store w') k = look (store w) k"
    if keep: "\<And>st inp. doi_Key inp \<noteq> Some k \<Longrightarrow> look (snd (DeleteObject s st inp)) k = look st k"
      and nk: "Some k \<notin> obj_Key ` set (lvo_Contents objs)"
      and wo: "world_of (removeUploadFolder s bucket key w) = Some w'"
  proof (cases err)
    case (Some e)
    with wo have "w' = ?w1" unfolding out by (simp add: world_of_def)
    then show ?thesis by simp
  next
    case None
    with wo have "world_of (removeUploadFolder_objects s bucket (lvo_Contents objs) ?w1) = Some w'"
      unfolding out by simp
    from removeUploadFolder_objects_frame [of k look s, OF keep nk this]
    show ?thesis by simp
  qed
  {
    assume "(\<forall>st inp. doi_Key inp \<noteq> Some k \<longrightarrow> look (snd (DeleteObject s st inp)) k = look st k)
         \<and> Some k \<notin> obj_Key ` set (lvo_Contents objs)
         \<and> world_of (removeUploadFolder s bucket key w) = Some w'"
    then show "look (store w') k = look (store w) k"
      by (intro frame) blast+
  }
  {
    assume "(\<forall>st inp. doi_Key inp \<noteq> Some k \<longrightarrow> look (snd (DeleteObject s st inp)) k = look st k)
         \<and> (\<forall>k'. Some k' \<in> obj_Key ` set (lvo_Contents objs) \<longrightarrow> prefix (uploadsFolder key) k')
         \<and> \<not> prefix (uploadsFolder key) k
         \<and> world_of (removeUploadFolder s bucket key w) = Some w'"
    then show "look (store w') k = look (store w) k"
      by (intro frame) blast+
  }
next
  assume "CHR ''/'' \<notin> set b"
  then show "uploadsFolder (a @ ''/'' @ b) = a"
    by (rule uploadsFolder_drops_last_segment)
qed

theorem removeUploadFolder_deletes_only_what_one_listing_returns_witness:
  "filter is_call
      (new_events (start store_pages_of_one)
         (removeUploadFolder fake_S3 ''registry'' ''repoA/_uploads/7f3a/startedat''
            (start store_pages_of_one)))
     = [CallListObjectsV2 \<lparr>lvi_Bucket = Some ''registry'', lvi_Prefix = Some ''repoA/_uploads/7f3a'',
                           lvi_MaxKeys = None, lvi_ContinuationToken = None\<rparr>,
        CallDeleteObject \<lparr>doi_Bucket = Some ''registry'', doi_Key = Some ''repoA/_uploads/7f3a/data''\<rparr>]
   \<and> fake_lookup
        (store (the (world_of (removeUploadFolder fake_S3 ''registry'' ''repoA/_uploads/7f3a/startedat''
                                 (start store_pages_of_one)))))
        ''repoA/_uploads/7f3a/startedat'' = Some ''2024-01-01T00:00:00Z''
   \<and> fake_lookup
        (store (the (world_of (removeUploadFolder fake_S3 ''registry'' ''repoA/_uploads/7f3a/startedat''
                                 (start store_pages_of_one)))))
        ''repoA/_layers/sha256/0a1b/link'' = Some ''sha256:0a1b''
   \<and> uploadsFolder ''repoA/_uploads/7f3a/startedat'' = ''repoA/_uploads/7f3a''"
proof -
  let ?w = "start store_pages_of_one"
  let ?key = "''repoA/_uploads/7f3a/startedat''"
  let ?link = "''repoA/_layers/sha256/0a1b/link''"
  let ?out = "removeUploadFolder fake_S3 ''registry'' ?key ?w"
  let ?objs = "\<lparr>lvo_Contents = [\<lparr>obj_Key = Some ''repoA/_uploads/7f3a/data''\<rparr>],
                 lvo_NextContinuationToken = Some ''repoA/_uploads/7f3a/data'',
                 lvo_IsTruncated = Some True\<rparr>"
  note t = removeUploadFolder_deletes_only_what_one_listing_returns
    [where s = fake_S3 and w = ?w and bucket = "''registry''" and key = ?key and objs = ?objs
       and err = None and look = fake_lookup and w' = "the (world_of ?out)" and k = ?key
       and a = "''repoA/_uploads/7f3a''" and b = "''startedat''"]
  note t' = removeUploadFolder_deletes_only_what_one_listing_returns
    [where s = fake_S3 and w = ?w and bucket = "''registry''" and key = ?key and objs = ?objs
       and err = None and look = fake_lookup and w' = "the (world_of ?out)" and k = ?link
       and a = "''repoA/_uploads/7f3a''" and b = "''startedat''"]
  have seg: "CHR ''/'' \<notin> set ''startedat''" by simp
  from mp [OF conjunct2 [OF t] seg]
  have u: "uploadsFolder ?key = ''repoA/_uploads/7f3a''" by simp
  have l: "ListObjectsV2 fake_S3 (store ?w)
             \<lparr>lvi_Bucket = Some ''registry'', lvi_Prefix = Some (uploadsFolder ?key),
              lvi_MaxKeys = None, lvi_ContinuationToken = None\<rparr> = (?objs, None)"
    by code_simp
  note ag = mp [OF conjunct1 [OF t] l]
  note ag' = mp [OF conjunct1 [OF t'] l]
  have ret: "\<exists>w'. ?out = Return () w'"
  proof
    show "?out = Return () (the (world_of ?out))" by code_simp
  qed
  from conjunct1 [OF ag] obtain n where
    n: "filter is_call (new_events ?w ?out)
          = CallListObjectsV2 \<lparr>lvi_Bucket = Some ''registry'', lvi_Prefix = Some (uploadsFolder ?key),
                               lvi_MaxKeys = None, lvi_ContinuationToken = None\<rparr>
            # map (\<lambda>ob. CallDeleteObject \<lparr>doi_Bucket = Some ''registry'', doi_Key = obj_Key ob\<rparr>)
                (take n (lvo_Contents ?objs))"
    and full: "(\<exists>w'. ?out = Return () w') \<longrightarrow> n = length (lvo_Contents ?objs)"
    by (elim exE conjE)
  from full ret have "n = 1" by simp
  with n u have 1: "filter is_call (new_events ?w ?out)
     = [CallListObjectsV2 \<lparr>lvi_Bucket = Some ''registry'', lvi_Prefix = Some ''repoA/_uploads/7f3a'',
                           lvi_MaxKeys = None, lvi_ContinuationToken = None\<rparr>,
        CallDeleteObject \<lparr>doi_Bucket = Some ''registry'', doi_Key = Some ''repoA/_uploads/7f3a/data''\<rparr>]"
    by simp
  have f1: "\<forall>st inp. doi_Key inp \<noteq> Some k \<longrightarrow>
              fake_lookup (snd (DeleteObject fake_S3 st inp)) k = fake_lookup st k" for k
    by (simp add: fake_delete_keeps_other_keys)
  have f2: "Some ?key \<notin> obj_Key ` set (lvo_Contents ?objs)" by simp
  have f3: "world_of ?out = Some (the (world_of ?out))" by code_simp
  have f4: "\<forall>k'. Some k' \<in> obj_Key ` set (lvo_Contents ?objs) \<longrightarrow> prefix (uploadsFolder ?key) k'"
    unfolding u by (simp add: prefix_def)
  have f5: "\<not> prefix (uploadsFolder ?key) ?link"
    unfolding u by (simp add: prefix_def)
  from mp [OF conjunct1 [OF conjunct2 [OF ag]] conjI [OF f1 conjI [OF f2 f3]]]
  have g: "fake_lookup (store (the (world_of ?out))) ?key = fake_lookup (store ?w) ?key" .
  have "fake_lookup (store ?w) ?key = Some ''2024-01-01T00:00:00Z''" by code_simp
  with g have 2: "fake_lookup (store (the (world_of ?out))) ?key = Some ''2024-01-01T00:00:00Z''" by simp
  from mp [OF conjunct2 [OF conjunct2 [OF ag']] conjI [OF f1 conjI [OF f4 conjI [OF f5 f3]]]]
  have g': "fake_lookup (store (the (world_of ?out))) ?link = fake_lookup (store ?w) ?link" .
  have "fake_lookup (store ?w) ?link = Some ''sha256:0a1b''" by code_simp
  with g' have 3: "fake_lookup (store (the (world_of ?out))) ?link = Some ''sha256:0a1b''" by simp
  from 1 2 3 u show ?thesis by simp
qed

subsection \<open>The three paginated scans\<close>

lemma last_mpu_page_without_marker:
  "fst (ListMultipartUploads fake_S3 store_no_next_key_marker
          \<lparr>lmi_Bucket = Some ''registry'', lmi_Prefix = Some ''repoA/'', lmi_KeyMarker = Some [],
           lmi_MaxUploads = Some MaxResultCount\<rparr>)
     = \<lparr>lmo_IsTruncated = Some False, lmo_NextKeyMarker = None, lmo_Uploads = [upload_5h]\<rparr>"
  by code_simp

lemma last_mpu_page_not_processed:
  "uploads_seen (trace_of (cleanMPUs 1 fake_S3 (test_opts 3 False) ''registry'' ''repoA/''
                             (start store_no_next_key_marker))) = []"
  by code_simp

lemma page_with_two_markers:
  "fst (ListObjectsV2 fake_S3 store_bad_marker
          \<lparr>lvi_Bucket = Some ''registry'', lvi_Prefix = Some ''repoA/'',
           lvi_MaxKeys = Some MaxResultCount, lvi_ContinuationToken = None\<rparr>)
     = \<lparr>lvo_Contents = [\<lparr>obj_Key = Some ''repoA/_uploads/a1/startedat''\<rparr>,
                        \<lparr>obj_Key = Some ''repoA/_uploads/b2/startedat''\<rparr>],
        lvo_NextContinuationToken = None, lvo_IsTruncated = Some False\<rparr>"
  by code_simp

lemma second_marker_not_fetched:
  "markers_fetched (trace_of (cleanUploadFolders 1 fake_S3 (test_opts 3 False) ''registry'' ''repoA/''
                                (start store_bad_marker)))
     = [Some ''repoA/_uploads/a1/startedat'']"
  by code_simp

text \<open>
  C7, as stated: whenever the store serves the items in pages and says of every page but
  the last that it is truncated, each scan processes every item once and stops at the page
  that is not truncated. Two runs where it does not. The only page of a listing of
  multipart uploads holds one upload and is not truncated, but has no \<^verbatim>\<open>NextKeyMarker\<close>:
  \<^verbatim>\<open>cleanMPUs\<close> reads the cursor before the uploads (line 114) and processes none. The only
  page of a listing of objects holds two markers and the first does not parse:
  \<^verbatim>\<open>hoursSinceUploadStarted\<close> panics (line 256) and the second marker is never fetched.
\<close>

theorem scan_stops_before_all_items_counterexample:
  "fst (ListMultipartUploads fake_S3 store_no_next_key_marker
          \<lparr>lmi_Bucket = Some ''registry'', lmi_Prefix = Some ''repoA/'', lmi_KeyMarker = Some [],
           lmi_MaxUploads = Some MaxResultCount\<rparr>)
     = \<lparr>lmo_IsTruncated = Some False, lmo_NextKeyMarker = None, lmo_Uploads = [upload_5h]\<rparr>
   \<and> uploads_seen (trace_of (cleanMPUs 1 fake_S3 (test_opts 3 False) ''registry'' ''repoA/''
                                (start store_no_next_key_marker))) = []
   \<and> fst (ListObjectsV2 fake_S3 store_bad_marker
          \<lparr>lvi_Bucket = Some ''registry'', lvi_Prefix = Some ''repoA/'',
           lvi_MaxKeys = Some MaxResultCount, lvi_ContinuationToken = None\<rparr>)
     = \<lparr>lvo_Contents = [\<lparr>obj_Key = Some ''repoA/_uploads/a1/startedat''\<rparr>,
                        \<lparr>obj_Key = Some ''repoA/_uploads/b2/startedat''\<rparr>],
        lvo_NextContinuationToken = None, lvo_IsTruncated = Some False\<rparr>
   \<and> markers_fetched (trace_of (cleanUploadFolders 1 fake_S3 (test_opts 3 False) ''registry'' ''repoA/''
                                   (start store_bad_marker)))
     = [Some ''repoA/_uploads/a1/startedat'']"
  by (intro conjI last_mpu_page_without_marker last_mpu_page_not_processed
        page_with_two_markers second_marker_not_fetched)

lemma within_ReturnE:
  assumes "within K view w out" and "out = Return a w'"
  obtains es where "trace w' = trace w @ es" and "list_all K es"
  using assms by (auto simp: prefix_def)

lemma seen_append [simp]:
  "uploads_seen (a @ b) = uploads_seen a @ uploads_seen b"
  "prefixes_seen (a @ b) = prefixes_seen a @ prefixes_seen b"
  "markers_fetched (a @ b) = markers_fetched a @ markers_fetched b"
  by (simp_all add: uploads_seen_def prefixes_seen_def markers_fetched_def)

lemma seen_Cons [simp]:
  "uploads_seen (e # es) = upload_key_of e @ uploads_seen es"
  "prefixes_seen (e # es) = prefix_of e @ prefixes_seen es"
  "markers_fetched (e # es) = fetched_key_of e @ markers_fetched es"
  "uploads_seen [] = []" "prefixes_seen [] = []" "markers_fetched [] = []"
  by (simp_all add: uploads_seen_def prefixes_seen_def markers_fetched_def)

lemma concat_map_empty:
  "list_all K es \<Longrightarrow> (\<And>e. K e \<Longrightarrow> g e = []) \<Longrightarrow> concat (map g es) = []"
  by (induction es) auto

lemma filter_empty_kind:
  "list_all K es \<Longrightarrow> (\<And>e. K e \<Longrightarrow> \<not> P e) \<Longrightarrow> filter P es = []"
  by (induction es) auto

lemma cleanMPUs_upload_seen:
  assumes "cleanMPUs_upload s opts bucket i multi totalRemoved w = Return t w'"
  shows "\<exists>es. trace w' = trace w @ es \<and> map Some (uploads_seen es) = [mu_Key multi]
              \<and> filter is_mpu_listing es = []"
proof -
  from assms obtain key ini where k: "mu_Key multi = Some key" and i: "mu_Initiated multi = Some ini"
    by (auto simp: cleanMPUs_upload_def Let_def split: option.splits)
  let ?h = "HoursSince s (store w) ini"
  show ?thesis
  proof (cases "CleanupHours opts \<le> ?h")
    case False
    with assms k i have "w' = println (StartedHoursAgo ?h) (println (UploadLine i key) w)"
      by (simp add: cleanMPUs_upload_def Let_def)
    with k show ?thesis by simp
  next
    case True
    with assms k i obtain uploadId where u: "mu_UploadId multi = Some uploadId"
      by (auto simp: cleanMPUs_upload_def Let_def split: option.splits)
    let ?w3 = "println (AbortCandidate bucket key uploadId)
                 (println (StartedHoursAgo ?h) (println (UploadLine i key) w))"
    let ?inp = "\<lparr>ami_Bucket = Some bucket, ami_Key = Some key, ami_UploadId = Some uploadId\<rparr>"
    show ?thesis
    proof (cases "DryRun opts")
      case True
      with assms k i u \<open>CleanupHours opts \<le> ?h\<close> have "w' = ?w3"
        by (simp add: cleanMPUs_upload_def Let_def)
      with k show ?thesis by simp
    next
      case False
      obtain err st' where ab: "AbortMultipartUpload s (store w) ?inp = (err, st')"
        by (cases "AbortMultipartUpload s (store w) ?inp")
      let ?w4 = "(emit (CallAbortMultipartUpload ?inp) ?w3)\<lparr>store := st'\<rparr>"
      from assms k i u \<open>CleanupHours opts \<le> ?h\<close> False ab
      have "w' = (case err of Some e \<Rightarrow> println (ErrorLine e) ?w4 | None \<Rightarrow> println RemovedLine ?w4)"
        by (simp add: cleanMPUs_upload_def Let_def)
      with k show ?thesis by (cases err) simp_all
    qed
  qed
qed

lemma cleanMPUs_uploads_seen:
  assumes "cleanMPUs_uploads s opts bucket i ms totalRemoved w = Return t w'"
  shows "\<exists>es. trace w' = trace w @ es \<and> map Some (uploads_seen es) = map mu_Key ms
              \<and> filter is_mpu_listing es = []"
  using assms
proof (induction ms arbitrary: i totalRemoved w)
  case Nil
  then show ?case by simp
next
  case (Cons m ms)
  from Cons.prems obtain t1 w1 where
    u: "cleanMPUs_upload s opts bucket i m totalRemoved w = Return t1 w1"
    and r: "cleanMPUs_uploads s opts bucket (Suc i) ms t1 w1 = Return t w'"
    by (cases "cleanMPUs_upload s opts bucket i m totalRemoved w") simp_all
  from cleanMPUs_upload_seen [OF u] obtain es1 where
    e1: "trace w1 = trace w @ es1" "map Some (uploads_seen es1) = [mu_Key m]"
        "filter is_mpu_listing es1 = []" by (elim exE conjE)
  from Cons.IH [OF r] obtain es2 where
    e2: "trace w' = trace w1 @ es2" "map Some (uploads_seen es2) = map mu_Key ms"
        "filter is_mpu_listing es2 = []" by (elim exE conjE)
  from e1 e2 have a: "trace w' = trace w @ (es1 @ es2)"
    and b: "map Some (uploads_seen (es1 @ es2)) = map mu_Key (m # ms)"
    and c: "filter is_mpu_listing (es1 @ es2) = []"
    by simp_all
  show ?case
    by (rule exI [of _ "es1 @ es2"]) (intro conjI a b c)
qed

lemma mpu_scan:
  assumes "mpu_pages_served s opts bucket pfx pages keyMarker totalRemoved w" and "length pages \<le> fuel"
  shows "\<exists>n w' es. cleanMPUs_loop fuel s opts bucket pfx keyMarker totalRemoved w = Return n w'
           \<and> trace w' = trace w @ es
           \<and> map Some (uploads_seen es) = concat (map (\<lambda>p. map mu_Key (lmo_Uploads p)) pages)
           \<and> length (filter is_mpu_listing es) = length pages"
  using assms
proof (induction pages arbitrary: fuel keyMarker totalRemoved w)
  case Nil
  then show ?case by simp
next
  case (Cons page pages)
  from Cons.prems(2) obtain f where fuel: "fuel = Suc f" and f: "length pages \<le> f"
    by (cases fuel) auto
  let ?inp = "\<lparr>lmi_Bucket = Some bucket, lmi_Prefix = Some pfx,
                lmi_KeyMarker = Some keyMarker, lmi_MaxUploads = Some MaxResultCount\<rparr>"
  let ?w1 = "emit (CallListMultipartUploads ?inp) w"
  let ?w2 = "if pages \<noteq> [] then println OutputTruncated ?w1 else ?w1"
  let ?w3 = "println (MPUsFound (length (lmo_Uploads page))) ?w2"
  from Cons.prems(1) obtain keyMarker' t1 w4 where
    l: "ListMultipartUploads s (store w) ?inp = (page, None)"
    and tr: "lmo_IsTruncated page = Some (pages \<noteq> [])"
    and km: "lmo_NextKeyMarker page = Some keyMarker'"
    and u: "cleanMPUs_uploads s opts bucket 0 (lmo_Uploads page) totalRemoved ?w3 = Return t1 w4"
    and rest: "pages = [] \<or> mpu_pages_served s opts bucket pfx pages keyMarker' t1 w4"
    by (auto simp: Let_def split: option.splits outcome.splits)
  from cleanMPUs_uploads_seen [OF u] obtain es1 where
    e1: "trace w4 = trace ?w3 @ es1" "map Some (uploads_seen es1) = map mu_Key (lmo_Uploads page)"
        "filter is_mpu_listing es1 = []" by (elim exE conjE)
  have step: "cleanMPUs_loop fuel s opts bucket pfx keyMarker totalRemoved w =
      (if pages \<noteq> [] then cleanMPUs_loop f s opts bucket pfx keyMarker' t1 w4 else Return t1 w4)"
    using l tr km u by (simp add: fuel Let_def)
  show ?case
  proof (cases "pages = []")
    case True
    let ?es = "CallListMultipartUploads ?inp # Print (MPUsFound (length (lmo_Uploads page))) # es1"
    from step True have s1: "cleanMPUs_loop fuel s opts bucket pfx keyMarker totalRemoved w = Return t1 w4"
      by simp
    from True e1 have a: "trace w4 = trace w @ ?es"
      and b: "map Some (uploads_seen ?es) = concat (map (\<lambda>p. map mu_Key (lmo_Uploads p)) (page # pages))"
      and c: "length (filter is_mpu_listing ?es) = length (page # pages)"
      by simp_all
    show ?thesis
      by (rule exI [of _ t1], rule exI [of _ w4], rule exI [of _ ?es]) (intro conjI s1 a b c)
  next
    case False
    with rest have "mpu_pages_served s opts bucket pfx pages keyMarker' t1 w4" by simp
    from Cons.IH [OF this f] obtain n w' es2 where
      r: "cleanMPUs_loop f s opts bucket pfx keyMarker' t1 w4 = Return n w'"
         "trace w' = trace w4 @ es2"
         "map Some (uploads_seen es2) = concat (map (\<lambda>p. map mu_Key (lmo_Uploads p)) pages)"
         "length (filter is_mpu_listing es2) = length pages"
      by (elim exE conjE)
    let ?es = "CallListMultipartUploads ?inp # Print OutputTruncated
                 # Print (MPUsFound (length (lmo_Uploads page))) # es1 @ es2"
    from step False r(1) have s1: "cleanMPUs_loop fuel s opts bucket pfx keyMarker totalRemoved w = Return n w'"
      by simp
    from False e1 r have a: "trace w' = trace w @ ?es"
      and b: "map Some (uploads_seen ?es) = concat (map (\<lambda>p. map mu_Key (lmo_Uploads p)) (page # pages))"
      and c: "length (filter is_mpu_listing ?es) = length (page # pages)"
      by simp_all
    show ?thesis
      by (rule exI [of _ n], rule exI [of _ w'], rule exI [of _ ?es]) (intro conjI s1 a b c)
  qed
qed


lemma marker_keys_Cons: "marker_keys (ob # obs) = marker_keys [ob] @ marker_keys obs"
  by (simp add: marker_keys_def)

lemma remove_event_not_seen:
  "remove_event e \<Longrightarrow> fetched_key_of e = []" "remove_event e \<Longrightarrow> \<not> is_paged_listing e"
  by (cases e rule: remove_event.cases; simp)+

lemma mpu_event_not_driver:
  "mpu_event_of dry p e \<Longrightarrow> prefix_of e = []" "mpu_event_of dry p e \<Longrightarrow> \<not> is_root_listing e"
  by (cases "(dry, e)" rule: mpu_event.cases; simp add: mpu_event_of_def)+

lemma folder_event_not_driver:
  "folder_event_of dry p e \<Longrightarrow> prefix_of e = []" "folder_event_of dry p e \<Longrightarrow> \<not> is_root_listing e"
  by (cases "(dry, e)" rule: folder_event.cases; simp add: folder_event_of_def)+

lemma cleanUploadFolders_object_seen:
  assumes "cleanUploadFolders_object s opts bucket ob w = Return u w'"
  shows "\<exists>es. trace w' = trace w @ es \<and> markers_fetched es = marker_keys [ob]
              \<and> filter is_paged_listing es = []"
proof -
  from assms obtain key where k: "obj_Key ob = Some key"
    by (cases "obj_Key ob") (simp_all add: cleanUploadFolders_object_def)
  show ?thesis
  proof (cases "is_marker key")
    case False
    with assms k have "w' = w" by (simp add: cleanUploadFolders_object_def)
    with k False show ?thesis by (simp add: marker_keys_def)
  next
    case True
    with k have mk: "marker_keys [ob] = [Some key]" by (simp add: marker_keys_def)
    let ?inp = "\<lparr>goi_Bucket = Some bucket, goi_Key = Some key\<rparr>"
    let ?w1 = "emit (CallGetObject ?inp) w"
    obtain obj err where g: "GetObject s (store w) ?inp = (obj, err)"
      by (cases "GetObject s (store w) ?inp")
    show ?thesis
    proof (cases err)
      case (Some e)
      with assms k True g have "w' = println (ErrorLine e) ?w1"
        by (simp add: cleanUploadFolders_object_def hoursSinceUploadStarted_def Let_def)
      with mk show ?thesis by simp
    next
      case None
      with assms k True g obtain t where t: "parseTimeFromStream (goo_Body obj) = Inr t"
        by (cases "parseTimeFromStream (goo_Body obj)")
           (simp_all add: cleanUploadFolders_object_def hoursSinceUploadStarted_def Let_def)
      let ?h = "HoursSince s (store w) t"
      show ?thesis
      proof (cases "CleanupHours opts \<le> ?h")
        case False
        with assms k True g None t have "w' = println (SkippingFolder key ?h) ?w1"
          by (simp add: cleanUploadFolders_object_def hoursSinceUploadStarted_def Let_def)
        with mk show ?thesis by simp
      next
        case stale: True
        let ?w2 = "println (RemovingFolder key ?h) ?w1"
        show ?thesis
        proof (cases "DryRun opts")
          case True
          with assms k \<open>is_marker key\<close> g None t stale have "w' = ?w2"
            by (simp add: cleanUploadFolders_object_def hoursSinceUploadStarted_def Let_def)
          with mk show ?thesis by simp
        next
          case False
          with assms k \<open>is_marker key\<close> g None t stale
          have r: "removeUploadFolder s bucket key ?w2 = Return u w'"
            by (simp add: cleanUploadFolders_object_def hoursSinceUploadStarted_def Let_def)
          have "within remove_event (\<lambda>st. ()) ?w2 (removeUploadFolder s bucket key ?w2)"
            by (rule removeUploadFolder_within) simp
          from within_ReturnE [OF this r] obtain es3 where
            e3: "trace w' = trace ?w2 @ es3" and k3: "list_all remove_event es3" by blast
          from k3 have "markers_fetched es3 = []"
            unfolding markers_fetched_def by (rule concat_map_empty) (rule remove_event_not_seen)
          moreover from k3 have "filter is_paged_listing es3 = []"
            by (rule filter_empty_kind) (rule remove_event_not_seen)
          ultimately have "trace w' = trace w @ (CallGetObject ?inp # Print (RemovingFolder key ?h) # es3)"
            "markers_fetched (CallGetObject ?inp # Print (RemovingFolder key ?h) # es3) = marker_keys [ob]"
            "filter is_paged_listing (CallGetObject ?inp # Print (RemovingFolder key ?h) # es3) = []"
            using e3 mk by simp_all
          then show ?thesis
            by (intro exI [of _ "CallGetObject ?inp # Print (RemovingFolder key ?h) # es3"] conjI)
        qed
      qed
    qed
  qed
qed

lemma cleanUploadFolders_contents_seen:
  assumes "cleanUploadFolders_contents s opts bucket obs w = Return u w'"
  shows "\<exists>es. trace w' = trace w @ es \<and> markers_fetched es = marker_keys obs
              \<and> filter is_paged_listing es = []"
  using assms
proof (induction obs arbitrary: w)
  case Nil
  then show ?case by (simp add: marker_keys_def)
next
  case (Cons ob obs)
  from Cons.prems obtain u1 w1 where
    o: "cleanUploadFolders_object s opts bucket ob w = Return u1 w1"
    and r: "cleanUploadFolders_contents s opts bucket obs w1 = Return u w'"
    by (cases "cleanUploadFolders_object s opts bucket ob w") simp_all
  from cleanUploadFolders_object_seen [OF o] obtain es1 where
    e1: "trace w1 = trace w @ es1" "markers_fetched es1 = marker_keys [ob]"
        "filter is_paged_listing es1 = []" by (elim exE conjE)
  from Cons.IH [OF r] obtain es2 where
    e2: "trace w' = trace w1 @ es2" "markers_fetched es2 = marker_keys obs"
        "filter is_paged_listing es2 = []" by (elim exE conjE)
  from e1 e2 have a: "trace w' = trace w @ (es1 @ es2)"
    and b: "markers_fetched (es1 @ es2) = marker_keys (ob # obs)"
    and c: "filter is_paged_listing (es1 @ es2) = []"
    by (simp_all add: marker_keys_Cons [of ob obs])
  show ?case
    by (rule exI [of _ "es1 @ es2"]) (intro conjI a b c)
qed

lemma folder_scan:
  assumes "folder_pages_served s opts bucket pfx pages token w" and "length pages \<le> fuel"
  shows "\<exists>w' es. cleanUploadFolders_loop fuel s opts bucket pfx token w = Return () w'
           \<and> trace w' = trace w @ es
           \<and> markers_fetched es = concat (map (\<lambda>p. marker_keys (lvo_Contents p)) pages)
           \<and> length (filter is_paged_listing es) = length pages"
  using assms
proof (induction pages arbitrary: fuel token w)
  case Nil
  then show ?case by simp
next
  case (Cons page pages)
  from Cons.prems(2) obtain f where fuel: "fuel = Suc f" and f: "length pages \<le> f"
    by (cases fuel) auto
  let ?inp = "\<lparr>lvi_Bucket = Some bucket, lvi_Prefix = Some pfx,
                lvi_MaxKeys = Some MaxResultCount, lvi_ContinuationToken = token\<rparr>"
  let ?w1 = "emit (CallListObjectsV2 ?inp) w"
  from Cons.prems(1) have l: "ListObjectsV2 s (store w) ?inp = (page, None)"
    and tr: "lvo_IsTruncated page = Some (pages \<noteq> [])"
    by (simp_all add: Let_def)
  from Cons.prems(1) obtain u1 w3 where
    c: "cleanUploadFolders_contents s opts bucket (lvo_Contents page) ?w1 = Return u1 w3"
    and rest: "pages = [] \<or> folder_pages_served s opts bucket pfx pages (lvo_NextContinuationToken page) w3"
    by (cases "cleanUploadFolders_contents s opts bucket (lvo_Contents page) ?w1") (simp_all add: Let_def)
  from cleanUploadFolders_contents_seen [OF c] obtain es1 where
    e1: "trace w3 = trace ?w1 @ es1" "markers_fetched es1 = marker_keys (lvo_Contents page)"
        "filter is_paged_listing es1 = []" by (elim exE conjE)
  have step: "cleanUploadFolders_loop fuel s opts bucket pfx token w =
      (if pages \<noteq> [] then cleanUploadFolders_loop f s opts bucket pfx (lvo_NextContinuationToken page) w3
       else Return () w3)"
    using l tr c by (simp add: fuel Let_def)
  show ?case
  proof (cases "pages = []")
    case True
    let ?es = "CallListObjectsV2 ?inp # es1"
    from step True have s1: "cleanUploadFolders_loop fuel s opts bucket pfx token w = Return () w3"
      by simp
    from True e1 have a: "trace w3 = trace w @ ?es"
      and b: "markers_fetched ?es = concat (map (\<lambda>p. marker_keys (lvo_Contents p)) (page # pages))"
      and c: "length (filter is_paged_listing ?es) = length (page # pages)"
      by (simp_all add: MaxResultCount_def)
    show ?thesis
      by (rule exI [of _ w3], rule exI [of _ ?es]) (intro conjI s1 a b c)
  next
    case False
    with rest have "folder_pages_served s opts bucket pfx pages (lvo_NextContinuationToken page) w3"
      by simp
    from Cons.IH [OF this f] obtain w' es2 where
      r: "cleanUploadFolders_loop f s opts bucket pfx (lvo_NextContinuationToken page) w3 = Return () w'"
         "trace w' = trace w3 @ es2"
         "markers_fetched es2 = concat (map (\<lambda>p. marker_keys (lvo_Contents p)) pages)"
         "length (filter is_paged_listing es2) = length pages"
      by (elim exE conjE)
    let ?es = "CallListObjectsV2 ?inp # es1 @ es2"
    from step False r(1) have s1: "cleanUploadFolders_loop fuel s opts bucket pfx token w = Return () w'"
      by simp
    from False e1 r have a: "trace w' = trace w @ ?es"
      and b: "markers_fetched ?es = concat (map (\<lambda>p. marker_keys (lvo_Contents p)) (page # pages))"
      and c: "length (filter is_paged_listing ?es) = length (page # pages)"
      by (simp_all add: MaxResultCount_def)
    show ?thesis
      by (rule exI [of _ w'], rule exI [of _ ?es]) (intro conjI s1 a b c)
  qed
qed


lemma main_prefixes_seen:
  assumes "main_prefixes inner s opts i cps totalRemoved w = Return t w'"
  shows "\<exists>es. trace w' = trace w @ es \<and> map Some (prefixes_seen es) = map cp_Prefix cps
              \<and> filter is_root_listing es = []"
  using assms
proof (induction cps arbitrary: i totalRemoved w)
  case Nil
  then show ?case by simp
next
  case (Cons cp cps)
  from Cons.prems obtain p where p: "cp_Prefix cp = Some p"
    by (cases "cp_Prefix cp") simp_all
  let ?w1 = "println (PrefixLine i p) w"
  from Cons.prems p obtain n w2 where
    c: "cleanMPUs inner s opts (Bucket opts) p ?w1 = Return n w2"
    and r: "main_prefixes inner s opts (Suc i) cps (totalRemoved + n) w2 = Return t w'"
    by (cases "cleanMPUs inner s opts (Bucket opts) p ?w1") simp_all
  have "within (mpu_event_of (DryRun opts) p) (\<lambda>st. ()) ?w1 (cleanMPUs inner s opts (Bucket opts) p ?w1)"
    by (rule cleanMPUs_within) simp
  from within_ReturnE [OF this c] obtain es1 where
    e1: "trace w2 = trace ?w1 @ es1" and k1: "list_all (mpu_event_of (DryRun opts) p) es1" by blast
  from k1 have p1: "prefixes_seen es1 = []"
    unfolding prefixes_seen_def by (rule concat_map_empty) (rule mpu_event_not_driver)
  from k1 have f1: "filter is_root_listing es1 = []"
    by (rule filter_empty_kind) (rule mpu_event_not_driver)
  from Cons.IH [OF r] obtain es2 where
    e2: "trace w' = trace w2 @ es2" "map Some (prefixes_seen es2) = map cp_Prefix cps"
        "filter is_root_listing es2 = []" by (elim exE conjE)
  let ?es = "Print (PrefixLine i p) # es1 @ es2"
  from e1 e2 p p1 f1 have a: "trace w' = trace w @ ?es"
    and b: "map Some (prefixes_seen ?es) = map cp_Prefix (cp # cps)"
    and c: "filter is_root_listing ?es = []"
    by simp_all
  show ?case
    by (rule exI [of _ ?es]) (intro conjI a b c)
qed

lemma main_page_seen:
  assumes "main_page inner s opts cps objsPrefix totalRemoved w = Return t w'"
  shows "\<exists>es. trace w' = trace w @ es \<and> map Some (prefixes_seen es) = map cp_Prefix cps
              \<and> filter is_root_listing es = []"
proof -
  from assms obtain t1 w1 where
    m: "main_prefixes inner s opts 0 cps totalRemoved w = Return t1 w1"
    by (cases "main_prefixes inner s opts 0 cps totalRemoved w") (simp_all add: main_page_def)
  from assms m obtain p where p: "objsPrefix = Some p"
    by (cases objsPrefix) (simp_all add: main_page_def)
  from main_prefixes_seen [OF m] obtain es1 where
    e1: "trace w1 = trace w @ es1" "map Some (prefixes_seen es1) = map cp_Prefix cps"
        "filter is_root_listing es1 = []" by (elim exE conjE)
  let ?w2 = "println (RemovingUploadFolders p) w1"
  show ?thesis
  proof (cases "DryRun opts")
    case True
    with assms m p have "w' = ?w2" by (simp add: main_page_def)
    with e1 have a: "trace w' = trace w @ (es1 @ [Print (RemovingUploadFolders p)])"
      and b: "map Some (prefixes_seen (es1 @ [Print (RemovingUploadFolders p)])) = map cp_Prefix cps"
      and c: "filter is_root_listing (es1 @ [Print (RemovingUploadFolders p)]) = []"
      by simp_all
    show ?thesis
      by (rule exI [of _ "es1 @ [Print (RemovingUploadFolders p)]"]) (intro conjI a b c)
  next
    case False
    with assms m p obtain u where
      c: "cleanUploadFolders inner s opts (Bucket opts) p ?w2 = Return u w'"
      by (cases "cleanUploadFolders inner s opts (Bucket opts) p ?w2") (simp_all add: main_page_def)
    have "within (folder_event_of (DryRun opts) p) (\<lambda>st. ()) ?w2
            (cleanUploadFolders inner s opts (Bucket opts) p ?w2)"
      by (rule cleanUploadFolders_within) simp
    from within_ReturnE [OF this c] obtain es3 where
      e3: "trace w' = trace ?w2 @ es3" and k3: "list_all (folder_event_of (DryRun opts) p) es3" by blast
    from k3 have p3: "prefixes_seen es3 = []"
      unfolding prefixes_seen_def by (rule concat_map_empty) (rule folder_event_not_driver)
    from k3 have f3: "filter is_root_listing es3 = []"
      by (rule filter_empty_kind) (rule folder_event_not_driver)
    let ?es = "es1 @ Print (RemovingUploadFolders p) # es3"
    from e1 e3 p3 f3 have a: "trace w' = trace w @ ?es"
      and b: "map Some (prefixes_seen ?es) = map cp_Prefix cps"
      and c: "filter is_root_listing ?es = []"
      by simp_all
    show ?thesis
      by (rule exI [of _ ?es]) (intro conjI a b c)
  qed
qed

lemma root_scan:
  assumes "root_pages_served inner s opts pfx pages marker totalRemoved w" and "length pages \<le> fuel"
  shows "\<exists>n w' es. main_loop inner fuel s opts pfx marker totalRemoved w = Return n w'
           \<and> trace w' = trace w @ es
           \<and> map Some (prefixes_seen es) = concat (map (\<lambda>p. map cp_Prefix (loo_CommonPrefixes p)) pages)
           \<and> length (filter is_root_listing es) = length pages"
  using assms
proof (induction pages arbitrary: fuel marker totalRemoved w)
  case Nil
  then show ?case by simp
next
  case (Cons page pages)
  from Cons.prems(2) obtain f where fuel: "fuel = Suc f" and f: "length pages \<le> f"
    by (cases fuel) auto
  let ?inp = "\<lparr>loi_MaxKeys = Some MaxResultCount, loi_Bucket = Some (Bucket opts),
                loi_Prefix = Some pfx, loi_Delimiter = Some ''/'', loi_Marker = Some marker\<rparr>"
  let ?w1 = "emit (CallListObjects ?inp) w"
  let ?w2 = "if pages \<noteq> [] then println ResultTruncated ?w1 else ?w1"
  from Cons.prems(1) have l: "ListObjects s (store w) ?inp = (page, None)"
    and tr: "loo_IsTruncated page = Some (pages \<noteq> [])"
    by (simp_all add: Let_def)
  from Cons.prems(1) obtain t1 w3 where
    pg: "main_page inner s opts (loo_CommonPrefixes page) (loo_Prefix page) totalRemoved ?w2 = Return t1 w3"
    and rest: "pages = [] \<or> (case loo_NextMarker page of None \<Rightarrow> False
                 | Some marker' \<Rightarrow> root_pages_served inner s opts pfx pages marker' t1 w3)"
    by (cases "main_page inner s opts (loo_CommonPrefixes page) (loo_Prefix page) totalRemoved ?w2")
       (simp_all add: Let_def)
  from main_page_seen [OF pg] obtain es1 where
    e1: "trace w3 = trace ?w2 @ es1"
        "map Some (prefixes_seen es1) = map cp_Prefix (loo_CommonPrefixes page)"
        "filter is_root_listing es1 = []" by (elim exE conjE)
  show ?case
  proof (cases "pages = []")
    case True
    let ?es = "CallListObjects ?inp # es1"
    from l tr pg True have s1: "main_loop inner fuel s opts pfx marker totalRemoved w = Return t1 w3"
      by (simp add: fuel Let_def)
    from True e1 have a: "trace w3 = trace w @ ?es"
      and b: "map Some (prefixes_seen ?es)
              = concat (map (\<lambda>p. map cp_Prefix (loo_CommonPrefixes p)) (page # pages))"
      and c: "length (filter is_root_listing ?es) = length (page # pages)"
      by simp_all
    show ?thesis
      by (rule exI [of _ t1], rule exI [of _ w3], rule exI [of _ ?es]) (intro conjI s1 a b c)
  next
    case False
    with rest obtain marker' where nm: "loo_NextMarker page = Some marker'"
      and sv: "root_pages_served inner s opts pfx pages marker' t1 w3"
      by (cases "loo_NextMarker page") simp_all
    from Cons.IH [OF sv f] obtain n w' es2 where
      r: "main_loop inner f s opts pfx marker' t1 w3 = Return n w'"
         "trace w' = trace w3 @ es2"
         "map Some (prefixes_seen es2) = concat (map (\<lambda>p. map cp_Prefix (loo_CommonPrefixes p)) pages)"
         "length (filter is_root_listing es2) = length pages"
      by (elim exE conjE)
    let ?es = "CallListObjects ?inp # Print ResultTruncated # es1 @ es2"
    from l tr pg nm False r(1) have s1: "main_loop inner fuel s opts pfx marker totalRemoved w = Return n w'"
      by (simp add: fuel Let_def)
    from False e1 r have a: "trace w' = trace w @ ?es"
      and b: "map Some (prefixes_seen ?es)
              = concat (map (\<lambda>p. map cp_Prefix (loo_CommonPrefixes p)) (page # pages))"
      and c: "length (filter is_root_listing ?es) = length (page # pages)"
      by simp_all
    show ?thesis
      by (rule exI [of _ n], rule exI [of _ w'], rule exI [of _ ?es]) (intro conjI s1 a b c)
  qed
qed

lemma new_events_Return: "trace w' = trace w @ es \<Longrightarrow> new_events w (Return a w') = es"
  by (simp add: new_events_def)

text \<open>
  C7, amended. Let the store answer the requests of a scan, in order and without error, by
  the pages \<open>pages\<close>, every page but the last saying that it is truncated, and let the
  pages carry the cursor the loop reads (\<^verbatim>\<open>NextKeyMarker\<close> on every page of multipart
  uploads, \<^verbatim>\<open>NextMarker\<close> on every truncated page of the grouped listing) and the
  processing of every page return. Then, with fuel for as many rounds as there are pages,
  the loop returns; the items it went through are the items of the pages, each once and in
  the order served (the uploads printed by \<^verbatim>\<open>cleanMPUs\<close>, the markers fetched by
  \<^verbatim>\<open>cleanUploadFolders\<close>, the common prefixes printed by \<^verbatim>\<open>main\<close>); and it issued as
  many listing requests as there are pages, the last one being the request answered by
  the page that is not truncated.
\<close>

theorem paginated_scans_visit_every_item_once:
  "(mpu_pages_served s opts bucket pfx pages keyMarker totalRemoved w \<and> length pages \<le> fuel \<longrightarrow>
      (\<exists>n w'. cleanMPUs_loop fuel s opts bucket pfx keyMarker totalRemoved w = Return n w'
         \<and> map Some (uploads_seen (new_events w (Return n w')))
             = concat (map (\<lambda>p. map mu_Key (lmo_Uploads p)) pages)
         \<and> length (filter is_mpu_listing (new_events w (Return n w'))) = length pages))
   \<and> (folder_pages_served s opts bucket pfx fpages token w \<and> length fpages \<le> fuel \<longrightarrow>
      (\<exists>w'. cleanUploadFolders_loop fuel s opts bucket pfx token w = Return () w'
         \<and> markers_fetched (new_events w (Return () w'))
             = concat (map (\<lambda>p. marker_keys (lvo_Contents p)) fpages)
         \<and> length (filter is_paged_listing (new_events w (Return () w'))) = length fpages))
   \<and> (root_pages_served inner s opts pfx rpages marker totalRemoved w \<and> length rpages \<le> fuel \<longrightarrow>
      (\<exists>n w'. main_loop inner fuel s opts pfx marker totalRemoved w = Return n w'
         \<and> map Some (prefixes_seen (new_events w (Return n w')))
             = concat (map (\<lambda>p. map cp_Prefix (loo_CommonPrefixes p)) rpages)
         \<and> length (filter is_root_listing (new_events w (Return n w'))) = length rpages))"
proof (intro conjI impI)
  assume "mpu_pages_served s opts bucket pfx pages keyMarker totalRemoved w \<and> length pages \<le> fuel"
  then have a: "mpu_pages_served s opts bucket pfx pages keyMarker totalRemoved w" and b: "length pages \<le> fuel"
    by simp_all
  from mpu_scan [OF a b] obtain n w' es where
    r: "cleanMPUs_loop fuel s opts bucket pfx keyMarker totalRemoved w = Return n w'"
       "trace w' = trace w @ es"
       "map Some (uploads_seen es) = concat (map (\<lambda>p. map mu_Key (lmo_Uploads p)) pages)"
       "length (filter is_mpu_listing es) = length pages"
    by (elim exE conjE)
  from r(2) have ne: "new_events w (Return n w') = es" by (rule new_events_Return)
  show "\<exists>n w'. cleanMPUs_loop fuel s opts bucket pfx keyMarker totalRemoved w = Return n w'
         \<and> map Some (uploads_seen (new_events w (Return n w')))
             = concat (map (\<lambda>p. map mu_Key (lmo_Uploads p)) pages)
         \<and> length (filter is_mpu_listing (new_events w (Return n w'))) = length pages"
    by (rule exI [of _ n], rule exI [of _ w']) (simp add: r ne)
next
  assume "folder_pages_served s opts bucket pfx fpages token w \<and> length fpages \<le> fuel"
  then have a: "folder_pages_served s opts bucket pfx fpages token w" and b: "length fpages \<le> fuel"
    by simp_all
  from folder_scan [OF a b] obtain w' es where
    r: "cleanUploadFolders_loop fuel s opts bucket pfx token w = Return () w'"
       "trace w' = trace w @ es"
       "markers_fetched es = concat (map (\<lambda>p. marker_keys (lvo_Contents p)) fpages)"
       "length (filter is_paged_listing es) = length fpages"
    by (elim exE conjE)
  from r(2) have ne: "new_events w (Return () w') = es" by (rule new_events_Return)
  show "\<exists>w'. cleanUploadFolders_loop fuel s opts bucket pfx token w = Return () w'
         \<and> markers_fetched (new_events w (Return () w'))
             = concat (map (\<lambda>p. marker_keys (lvo_Contents p)) fpages)
         \<and> length (filter is_paged_listing (new_events w (Return () w'))) = length fpages"
    by (rule exI [of _ w']) (simp add: r ne)
next
  assume "root_pages_served inner s opts pfx rpages marker totalRemoved w \<and> length rpages \<le> fuel"
  then have a: "root_pages_served inner s opts pfx rpages marker totalRemoved w" and b: "length rpages \<le> fuel"
    by simp_all
  from root_scan [OF a b] obtain n w' es where
    r: "main_loop inner fuel s opts pfx marker totalRemoved w = Return n w'"
       "trace w' = trace w @ es"
       "map Some (prefixes_seen es) = concat (map (\<lambda>p. map cp_Prefix (loo_CommonPrefixes p)) rpages)"
       "length (filter is_root_listing es) = length rpages"
    by (elim exE conjE)
  from r(2) have ne: "new_events w (Return n w') = es" by (rule new_events_Return)
  show "\<exists>n w'. main_loop inner fuel s opts pfx marker totalRemoved w = Return n w'
         \<and> map Some (prefixes_seen (new_events w (Return n w')))
             = concat (map (\<lambda>p. map cp_Prefix (loo_CommonPrefixes p)) rpages)
         \<and> length (filter is_root_listing (new_events w (Return n w'))) = length rpages"
    by (rule exI [of _ n], rule exI [of _ w']) (simp add: r ne)
qed


lemma two_mpu_pages_served:
  "mpu_pages_served fake_S3 (test_opts 48 False) ''registry'' ''repoA/'' [mpu_page1, mpu_page2] [] 0
     (start store_two_pages)"
  by code_simp

lemma two_folder_pages_served:
  "folder_pages_served fake_S3 (test_opts 48 False) ''registry'' ''repoA/''
     [\<lparr>lvo_Contents = [\<lparr>obj_Key = Some ''repoA/_uploads/7f3a/data''\<rparr>],
       lvo_NextContinuationToken = Some ''repoA/_uploads/7f3a/data'', lvo_IsTruncated = Some True\<rparr>,
      \<lparr>lvo_Contents = [\<lparr>obj_Key = Some ''repoA/_uploads/7f3a/startedat''\<rparr>],
       lvo_NextContinuationToken = None, lvo_IsTruncated = Some False\<rparr>] None
     (start store_two_pages)"
  by code_simp

lemma two_root_pages_served:
  "root_pages_served 5 fake_S3 (test_opts 48 False) ''repos/'' [root_page1, root_page2] [] 0
     (start store_two_pages)"
  by code_simp

lemma two_mpu_pages_uploads:
  "concat (map (\<lambda>p. map mu_Key (lmo_Uploads p)) [mpu_page1, mpu_page2])
     = [Some ''repoA/a'', Some ''repoA/b'', Some ''repoA/c'']"
  by (simp add: mpu_page1_def mpu_page2_def upload_of_def)

lemma two_folder_pages_markers:
  "concat (map (\<lambda>p. marker_keys (lvo_Contents p))
     [\<lparr>lvo_Contents = [\<lparr>obj_Key = Some ''repoA/_uploads/7f3a/data''\<rparr>],
       lvo_NextContinuationToken = Some ''repoA/_uploads/7f3a/data'', lvo_IsTruncated = Some True\<rparr>,
      \<lparr>lvo_Contents = [\<lparr>obj_Key = Some ''repoA/_uploads/7f3a/startedat''\<rparr>],
       lvo_NextContinuationToken = None, lvo_IsTruncated = Some False\<rparr>])
     = [Some ''repoA/_uploads/7f3a/startedat'']"
  by code_simp

lemma two_root_pages_prefixes:
  "concat (map (\<lambda>p. map cp_Prefix (loo_CommonPrefixes p)) [root_page1, root_page2])
     = [Some ''repos/app/'', Some ''repos/web/'']"
  by (simp add: root_page1_def root_page2_def)

theorem paginated_scans_visit_every_item_once_witness:
  "map Some (uploads_seen (new_events (start store_two_pages)
      (cleanMPUs_loop 2 fake_S3 (test_opts 48 False) ''registry'' ''repoA/'' [] 0 (start store_two_pages))))
     = [Some ''repoA/a'', Some ''repoA/b'', Some ''repoA/c'']
   \<and> length (filter is_mpu_listing (new_events (start store_two_pages)
      (cleanMPUs_loop 2 fake_S3 (test_opts 48 False) ''registry'' ''repoA/'' [] 0 (start store_two_pages))))
     = 2
   \<and> markers_fetched (new_events (start store_two_pages)
      (cleanUploadFolders_loop 2 fake_S3 (test_opts 48 False) ''registry'' ''repoA/'' None
         (start store_two_pages)))
     = [Some ''repoA/_uploads/7f3a/startedat'']
   \<and> length (filter is_paged_listing (new_events (start store_two_pages)
      (cleanUploadFolders_loop 2 fake_S3 (test_opts 48 False) ''registry'' ''repoA/'' None
         (start store_two_pages))))
     = 2
   \<and> map Some (prefixes_seen (new_events (start store_two_pages)
      (main_loop 5 2 fake_S3 (test_opts 48 False) ''repos/'' [] 0 (start store_two_pages))))
     = [Some ''repos/app/'', Some ''repos/web/'']
   \<and> length (filter is_root_listing (new_events (start store_two_pages)
      (main_loop 5 2 fake_S3 (test_opts 48 False) ''repos/'' [] 0 (start store_two_pages))))
     = 2"
proof -
  let ?w = "start store_two_pages"
  let ?opts = "test_opts 48 False"
  let ?fpages = "[\<lparr>lvo_Contents = [\<lparr>obj_Key = Some ''repoA/_uploads/7f3a/data''\<rparr>],
       lvo_NextContinuationToken = Some ''repoA/_uploads/7f3a/data'', lvo_IsTruncated = Some True\<rparr>,
      \<lparr>lvo_Contents = [\<lparr>obj_Key = Some ''repoA/_uploads/7f3a/startedat''\<rparr>],
       lvo_NextContinuationToken = None, lvo_IsTruncated = Some False\<rparr>]"
  note t = paginated_scans_visit_every_item_once
    [where s = fake_S3 and opts = ?opts and bucket = "''registry''" and w = ?w and fuel = 2
       and totalRemoved = 0 and inner = 5
       and pfx = "''repoA/''" and pages = "[mpu_page1, mpu_page2]" and keyMarker = "[]"
       and fpages = ?fpages and token = None
       and rpages = "[]" and marker = "[]"]
  note t' = paginated_scans_visit_every_item_once
    [where s = fake_S3 and opts = ?opts and bucket = "''registry''" and w = ?w and fuel = 2
       and totalRemoved = 0 and inner = 5
       and pfx = "''repos/''" and pages = "[]" and keyMarker = "[]"
       and fpages = "[]" and token = None
       and rpages = "[root_page1, root_page2]" and marker = "[]"]
  have l2: "length [mpu_page1, mpu_page2] \<le> 2" "length ?fpages \<le> 2"
    "length [root_page1, root_page2] \<le> 2" by simp_all
  from mp [OF conjunct1 [OF t] conjI [OF two_mpu_pages_served l2(1)]]
  obtain n w' where
    m: "cleanMPUs_loop 2 fake_S3 ?opts ''registry'' ''repoA/'' [] 0 ?w = Return n w'"
       "map Some (uploads_seen (new_events ?w (Return n w')))
          = concat (map (\<lambda>p. map mu_Key (lmo_Uploads p)) [mpu_page1, mpu_page2])"
       "length (filter is_mpu_listing (new_events ?w (Return n w'))) = length [mpu_page1, mpu_page2]"
    by (elim exE conjE)
  from mp [OF conjunct1 [OF conjunct2 [OF t]] conjI [OF two_folder_pages_served l2(2)]]
  obtain w'' where
    f: "cleanUploadFolders_loop 2 fake_S3 ?opts ''registry'' ''repoA/'' None ?w = Return () w''"
       "markers_fetched (new_events ?w (Return () w''))
          = concat (map (\<lambda>p. marker_keys (lvo_Contents p)) ?fpages)"
       "length (filter is_paged_listing (new_events ?w (Return () w''))) = length ?fpages"
    by (elim exE conjE)
  from mp [OF conjunct2 [OF conjunct2 [OF t']] conjI [OF two_root_pages_served l2(3)]]
  obtain k w3 where
    r: "main_loop 5 2 fake_S3 ?opts ''repos/'' [] 0 ?w = Return k w3"
       "map Some (prefixes_seen (new_events ?w (Return k w3)))
          = concat (map (\<lambda>p. map cp_Prefix (loo_CommonPrefixes p)) [root_page1, root_page2])"
       "length (filter is_root_listing (new_events ?w (Return k w3))) = length [root_page1, root_page2]"
    by (elim exE conjE)
  have a1: "map Some (uploads_seen (new_events ?w
              (cleanMPUs_loop 2 fake_S3 ?opts ''registry'' ''repoA/'' [] 0 ?w)))
            = [Some ''repoA/a'', Some ''repoA/b'', Some ''repoA/c'']"
    unfolding m(1) m(2) by (rule two_mpu_pages_uploads)
  have a2: "length (filter is_mpu_listing (new_events ?w
              (cleanMPUs_loop 2 fake_S3 ?opts ''registry'' ''repoA/'' [] 0 ?w))) = 2"
    unfolding m(1) m(3) by simp
  have b1: "markers_fetched (new_events ?w
              (cleanUploadFolders_loop 2 fake_S3 ?opts ''registry'' ''repoA/'' None ?w))
            = [Some ''repoA/_uploads/7f3a/startedat'']"
    unfolding f(1) f(2) by (rule two_folder_pages_markers)
  have b2: "length (filter is_paged_listing (new_events ?w
              (cleanUploadFolders_loop 2 fake_S3 ?opts ''registry'' ''repoA/'' None ?w))) = 2"
    unfolding f(1) f(3) by simp
  have c1: "map Some (prefixes_seen (new_events ?w
              (main_loop 5 2 fake_S3 ?opts ''repos/'' [] 0 ?w)))
            = [Some ''repos/app/'', Some ''repos/web/'']"
    unfolding r(1) r(2) by (rule two_root_pages_prefixes)
  have c2: "length (filter is_root_listing (new_events ?w
              (main_loop 5 2 fake_S3 ?opts ''repos/'' [] 0 ?w))) = 2"
    unfolding r(1) r(3) by simp
  show ?thesis
    by (intro conjI a1 a2 b1 b2 c1 c2)
qed

subsection \<open>Reading back a timestamp\<close>





lemma isDigit_Cons [simp]:
  "isDigit (c # s) 0 = is_digit c"
  "isDigit (c # s) (Suc i) = isDigit s i"
  "isDigit (c # s) 1 = isDigit s 0"
  "isDigit [] i = False"
  by (simp_all add: isDigit_def)



lemma skip_lit: "skip (lit @ rest) lit = Some rest"
  by (simp add: skip_def)






































end
